theory Spec2Isabelle
  imports Main "HOL-Library.Word"
begin

section \<open>The socket layer of socketio.c\<close>

text \<open>
  The model follows \<^verbatim>\<open>src/socketio.c\<close> as it is preprocessed with
  \<^verbatim>\<open>__linux__\<close> defined: wherever the source has an
  \<^verbatim>\<open>#ifdef _WIN32 ... #elif defined __linux__\<close> pair, the
  \<^verbatim>\<open>__linux__\<close> branch is the one translated. Every function of the source
  talks to the operating system; the model makes both directions explicit:
  \<^item> what the program asks of the platform is appended to a \<^emph>\<open>trace\<close> of events, each
    holding the arguments of the call and the value the platform returned;
  \<^item> what the platform answers is an input: the answers to \<^verbatim>\<open>send\<close> and
    \<^verbatim>\<open>recv\<close> are a list (one entry per call, in order), the other answers are
    fields of an environment record.
  The transfer loops of \<^verbatim>\<open>sio_send\<close> and \<^verbatim>\<open>sio_recv\<close> may run
  for ever, so they return an \<open>int option\<close>: \<open>Some r\<close> when the C function returns
  \<open>r\<close>, \<open>None\<close> when the loop is still running after the platform has given every
  answer of the list.
\<close>

subsection \<open>Data\<close>

text \<open>\<^verbatim>\<open>size_t\<close> and \<^verbatim>\<open>ssize_t\<close> on an LP64 Linux: 64 bits, the second read
  as two's complement. \<^verbatim>\<open>int\<close> counters are modelled as \<open>int\<close>: the only
  arithmetic on them is \<^verbatim>\<open>nfails++\<close>, executed when \<open>nfails\<close> is 0 or below
  \<open>maxnfails\<close>, so it cannot overflow.\<close>

type_synonym size_t = "64 word"
type_synonym ssize_t = "64 word"

text \<open>The values of \<^verbatim>\<open>errno\<close> the source tests, \<open>ENONE\<close> for the value 0, and
  some of the others.\<close>

datatype errcode = ENONE | EINPROGRESS | EAGAIN | EWOULDBLOCK
  | ECONNREFUSED | ECONNRESET | EPIPE | EBADF | EINTR

text \<open>\<^verbatim>\<open>#define SELECT_READ 0x0\<close>, \<^verbatim>\<open>#define SELECT_WRITE 0x1\<close>: the second
  argument of \<^verbatim>\<open>sio_select\<close>.\<close>

datatype select_mode = SELECT_READ | SELECT_WRITE

text \<open>\<^verbatim>\<open>struct socketio\<close>, with the fields the source reads and writes.\<close>

record socketio =
  socket :: int
  opts :: int
  timeout :: nat
  maxnfails :: int

text \<open>Modelled from the spec: the header \<^verbatim>\<open>socketio.h\<close> is not among the sources, so
  the macros it defines are given the values of the Linux socket interface. \<open>INV_SOCK\<close> is
  the spec's ``distinguished sentinel value'' of an unset handle, the descriptor \<open>-1\<close>
  that \<^verbatim>\<open>socket(2)\<close> returns on failure; \<open>SOCK_ERR\<close> and \<open>SOCK_ERROR\<close> are the
  error return \<open>-1\<close> of \<^verbatim>\<open>send(2)\<close>, \<^verbatim>\<open>recv(2)\<close> and
  \<^verbatim>\<open>connect(2)\<close>.\<close>

definition INV_SOCK :: int where
  "INV_SOCK = - 1"

definition SOCK_ERR :: ssize_t where
  "SOCK_ERR = - 1"

definition SOCK_ERROR :: int where
  "SOCK_ERROR = - 1"

text \<open>\<^verbatim>\<open>AF_INET\<close> of \<^verbatim>\<open>sys/socket.h\<close>.\<close>

definition AF_INET :: int where
  "AF_INET = 2"

subsection \<open>The platform\<close>

text \<open>One event per platform call: the arguments, then the value returned.
  \<^item> \<open>Inet_pton host r\<close>: \<^verbatim>\<open>inet_pton(AF_INET, host, ...)\<close> returned \<open>r\<close>;
  \<^item> \<open>Connect fd port addr r\<close>: \<^verbatim>\<open>connect\<close> on descriptor \<open>fd\<close> to the socket
    address \<open>addr:port\<close>;
  \<^item> \<open>Send fd off cnt r\<close>: \<^verbatim>\<open>send(fd, &buf[off], cnt, 0)\<close>, and \<open>Recv\<close> alike;
  \<^item> \<open>Select nfds mode secs r\<close>: \<^verbatim>\<open>select\<close> with the descriptor set passed as read
    set (\<open>SELECT_READ\<close>) or as write set (\<open>SELECT_WRITE\<close>) and a timeout of \<open>secs\<close>
    seconds;
  \<^item> \<open>Getsockopt_SO_ERROR fd v\<close>: \<^verbatim>\<open>getsockopt(fd, SOL_SOCKET, SO_ERROR, &err, ...)\<close>
    left \<open>v\<close> in \<open>err\<close>;
  \<^item> \<open>Close fd r\<close>: \<^verbatim>\<open>close(fd)\<close>.\<close>

datatype event =
    Inet_pton string int
  | Connect int nat "32 word" int
  | Send int size_t size_t ssize_t
  | Recv int size_t size_t ssize_t
  | Select int select_mode nat int
  | Getsockopt_SO_ERROR int int
  | Close int int

text \<open>The state outside the program: the calls made so far and the global \<^verbatim>\<open>errno\<close>.\<close>

record world =
  trace :: "event list"
  errno :: errcode

text \<open>The platform's answers. A pair \<open>(r, e)\<close> is a return value and the error code the
  call stores in \<^verbatim>\<open>errno\<close> when it fails (when \<open>r = -1\<close>). \<open>select_reply\<close> and
  \<open>close_reply\<close> are asked with the number of platform calls made before.
  \<open>inet_pton_reply host\<close> is the return value (1 when \<open>host\<close> is a dotted-decimal address) and
  the address stored in that case. \<open>so_error\<close> is the value that \<^verbatim>\<open>getsockopt\<close> leaves in
  \<^verbatim>\<open>err\<close>.\<close>

record env =
  inet_pton_reply :: "string \<Rightarrow> int \<times> 32 word"
  connect_reply :: "int \<times> errcode"
  select_reply :: "nat \<Rightarrow> int \<times> errcode"
  close_reply :: "nat \<Rightarrow> int \<times> errcode"
  so_error :: int

text \<open>The answer to one \<^verbatim>\<open>send\<close> or \<^verbatim>\<open>recv\<close>: the \<^verbatim>\<open>ssize_t\<close> returned
  and the error code stored when it is \<open>-1\<close>.\<close>

type_synonym xfer_reply = "ssize_t \<times> errcode"

text \<open>A platform call appends its event; a call that returns \<open>-1\<close> stores its error
  code in \<^verbatim>\<open>errno\<close>, any other leaves \<^verbatim>\<open>errno\<close> as it was.\<close>

definition record_call :: "event \<Rightarrow> int \<Rightarrow> errcode \<Rightarrow> world \<Rightarrow> world" where
  "record_call ev r e w =
     w\<lparr>trace := trace w @ [ev], errno := (if r = - 1 then e else errno w)\<rparr>"

definition plat_send :: "int \<Rightarrow> size_t \<Rightarrow> size_t \<Rightarrow> xfer_reply \<Rightarrow> world \<Rightarrow> ssize_t \<times> world" where
  "plat_send fd off cnt rp w =
     (fst rp, record_call (Send fd off cnt (fst rp)) (sint (fst rp)) (snd rp) w)"

definition plat_recv :: "int \<Rightarrow> size_t \<Rightarrow> size_t \<Rightarrow> xfer_reply \<Rightarrow> world \<Rightarrow> ssize_t \<times> world" where
  "plat_recv fd off cnt rp w =
     (fst rp, record_call (Recv fd off cnt (fst rp)) (sint (fst rp)) (snd rp) w)"

subsection \<open>sio\_select and is\_connected\<close>

text \<open>\<^verbatim>\<open>sio_select\<close>: one \<^verbatim>\<open>select\<close> on \<open>sio->socket\<close> alone, in one direction,
  with the timeout \<open>sio->timeout\<close> seconds; 1 when \<^verbatim>\<open>select\<close> returned 1, else 0.\<close>

definition sio_select :: "env \<Rightarrow> socketio \<Rightarrow> select_mode \<Rightarrow> world \<Rightarrow> int \<times> world" where
  "sio_select E sio mode w =
     (let (res, e) = select_reply E (length (trace w));
          w1 = record_call (Select (socket sio + 1) mode (timeout sio) res) res e w
      in if res = 1 then (1, w1) else (0, w1))"

definition is_connected :: "env \<Rightarrow> socketio \<Rightarrow> world \<Rightarrow> int \<times> world" where
  "is_connected E sio w =
     (let (res, w1) = sio_select E sio SELECT_WRITE w
      in if res = 1 then
           (let err = so_error E;
                w2 = record_call (Getsockopt_SO_ERROR (socket sio) err) 0 ENONE w1
            in if err \<noteq> 0 then (- 1, w2) else (0, w2))
         else (- 1, w1))"

subsection \<open>sio\_connect\<close>

text \<open>The source ignores the value of \<^verbatim>\<open>inet_pton\<close>; the address structure was zeroed
  by \<^verbatim>\<open>memset\<close>, so its address is 0 when nothing was stored. The first argument of
  \<^verbatim>\<open>connect\<close> is \<^verbatim>\<open>AF_INET\<close> in the source.\<close>

definition sio_connect :: "env \<Rightarrow> socketio \<Rightarrow> string \<Rightarrow> nat \<Rightarrow> world \<Rightarrow> int \<times> world" where
  "sio_connect E sio host port w =
     (let (pr, a) = inet_pton_reply E host;
          addr = (if pr = 1 then a else 0);
          w1 = w\<lparr>trace := trace w @ [Inet_pton host pr]\<rparr>;
          w2 = w1\<lparr>errno := ENONE\<rparr>;
          (res, e) = connect_reply E;
          w3 = record_call (Connect AF_INET port addr res) res e w2
      in if res = SOCK_ERROR then
           (if errno w3 = EINPROGRESS then is_connected E sio w3 else (- 1, w3))
         else (0, w3))"

subsection \<open>sio\_send and sio\_recv\<close>

text \<open>The \<^verbatim>\<open>while (total_bytes < len)\<close> loop of \<^verbatim>\<open>sio_send\<close>, one equation for the
  case that the platform has no further answer and one for an iteration. The arguments
  \<open>total_bytes\<close> and \<open>nfails\<close> are the local variables at the head of the loop.\<close>

fun send_loop ::
  "env \<Rightarrow> socketio \<Rightarrow> size_t \<Rightarrow> size_t \<Rightarrow> int \<Rightarrow> xfer_reply list \<Rightarrow> world \<Rightarrow> int option \<times> world" where
  "send_loop E sio len total_bytes nfails [] w =
     (if total_bytes < len then (None, w) else (Some 0, w))"
| "send_loop E sio len total_bytes nfails (rp # rps) w =
     (if total_bytes < len then
        (let (temp, w1) = plat_send (socket sio) total_bytes (len - total_bytes) rp w
         in if temp = SOCK_ERR then
              (if errno w1 = EAGAIN \<or> errno w1 = EWOULDBLOCK then
                 (let (r, w2) = sio_select E sio SELECT_WRITE w1
                  in if maxnfails sio \<le> nfails + 1 then (Some (- 1), w2)
                     else send_loop E sio len total_bytes (nfails + 1) rps w2)
               else (Some (- 1), w1))
            else send_loop E sio len (total_bytes + temp) 0 rps w1)
      else (Some 0, w))"

definition sio_send :: "env \<Rightarrow> socketio \<Rightarrow> size_t \<Rightarrow> xfer_reply list \<Rightarrow> world \<Rightarrow> int option \<times> world" where
  "sio_send E sio len rps w = send_loop E sio len 0 0 rps w"

fun recv_loop ::
  "env \<Rightarrow> socketio \<Rightarrow> size_t \<Rightarrow> size_t \<Rightarrow> int \<Rightarrow> xfer_reply list \<Rightarrow> world \<Rightarrow> int option \<times> world" where
  "recv_loop E sio len total_bytes nfails [] w =
     (if total_bytes < len then (None, w) else (Some 0, w))"
| "recv_loop E sio len total_bytes nfails (rp # rps) w =
     (if total_bytes < len then
        (let (temp, w1) = plat_recv (socket sio) total_bytes (len - total_bytes) rp w
         in if temp = SOCK_ERR then
              (if errno w1 = EAGAIN \<or> errno w1 = EWOULDBLOCK then
                 (let (r, w2) = sio_select E sio SELECT_READ w1
                  in if maxnfails sio \<le> nfails + 1 then (Some (- 1), w2)
                     else recv_loop E sio len total_bytes (nfails + 1) rps w2)
               else (Some (- 1), w1))
            else if 0 <s temp then recv_loop E sio len (total_bytes + temp) 0 rps w1
            else (Some (- 1), w1))
      else (Some 0, w))"

definition sio_recv :: "env \<Rightarrow> socketio \<Rightarrow> size_t \<Rightarrow> xfer_reply list \<Rightarrow> world \<Rightarrow> int option \<times> world" where
  "sio_recv E sio len rps w = recv_loop E sio len 0 0 rps w"

subsection \<open>sio\_close\<close>

definition sio_close :: "env \<Rightarrow> socketio \<Rightarrow> world \<Rightarrow> socketio \<times> world" where
  "sio_close E sio w =
     (let (r, e) = close_reply E (length (trace w));
          w1 = record_call (Close (socket sio) r) r e w
      in (sio\<lparr>socket := INV_SOCK\<rparr>, w1))"

subsection \<open>Vocabulary of the properties\<close>

text \<open>The test the loops make after a failed call: the call returned \<open>SOCK_ERR\<close> and
  \<^verbatim>\<open>errno\<close> is \<^verbatim>\<open>EAGAIN\<close> or \<^verbatim>\<open>EWOULDBLOCK\<close>.\<close>

definition is_would_block :: "xfer_reply \<Rightarrow> bool" where
  "is_would_block rp \<longleftrightarrow> fst rp = SOCK_ERR \<and> (snd rp = EAGAIN \<or> snd rp = EWOULDBLOCK)"

text \<open>The bytes one event moved: what \<^verbatim>\<open>send\<close> returned unless it is the error
  return, what \<^verbatim>\<open>recv\<close> returned when it is positive.\<close>

fun bytes_of :: "event \<Rightarrow> nat" where
  "bytes_of (Send fd off cnt r) = (if r = SOCK_ERR then 0 else unat r)"
| "bytes_of (Recv fd off cnt r) = (if 0 <s r then unat r else 0)"
| "bytes_of ev = 0"

definition transferred :: "event list \<Rightarrow> nat" where
  "transferred evs = sum_list (map bytes_of evs)"

text \<open>The platform keeps to the request: a transfer call fails or moves at most the count
  it was asked for.\<close>

fun within_request :: "event \<Rightarrow> bool" where
  "within_request (Send fd off cnt r) = (r = SOCK_ERR \<or> r \<le> cnt)"
| "within_request (Recv fd off cnt r) = (r = SOCK_ERR \<or> r \<le> cnt)"
| "within_request ev = True"

text \<open>The events a call added to the trace.\<close>

definition new_events :: "world \<Rightarrow> world \<Rightarrow> event list" where
  "new_events w w' = drop (length (trace w)) (trace w')"

text \<open>A transfer call made when \<open>tot\<close> bytes have been moved fits a buffer of \<open>len\<close>
  bytes on descriptor \<open>s\<close>: it starts at offset \<open>tot\<close>, asks for \<open>len - tot\<close> bytes, and
  offset plus count is \<open>len\<close> without wrap-around.\<close>

fun call_fits :: "int \<Rightarrow> size_t \<Rightarrow> nat \<Rightarrow> event \<Rightarrow> bool" where
  "call_fits s len tot (Send fd off cnt r) =
     (fd = s \<and> unat off = tot \<and> cnt = len - off \<and> unat off + unat cnt = unat len)"
| "call_fits s len tot (Recv fd off cnt r) =
     (fd = s \<and> unat off = tot \<and> cnt = len - off \<and> unat off + unat cnt = unat len)"
| "call_fits s len tot ev = True"

text \<open>The same for a list of events, walked with the bytes moved so far: every call
  fits, and the bytes moved never pass \<open>len\<close>.\<close>

fun calls_fit :: "int \<Rightarrow> size_t \<Rightarrow> nat \<Rightarrow> event list \<Rightarrow> bool" where
  "calls_fit s len t [] = True"
| "calls_fit s len t (ev # evs) =
     (call_fits s len t ev \<and> t + bytes_of ev \<le> unat len
      \<and> calls_fit s len (t + bytes_of ev) evs)"

text \<open>A list of platform answers written as segments: each segment is a run of would-block
  answers followed by one other answer. \<open>seg_bytes\<close> adds up what the closing answers
  return.\<close>

definition seg_script :: "(xfer_reply list \<times> xfer_reply) list \<Rightarrow> xfer_reply list" where
  "seg_script segs = concat (map (\<lambda>(wbs, p). wbs @ [p]) segs)"

definition seg_bytes :: "(xfer_reply list \<times> xfer_reply) list \<Rightarrow> nat" where
  "seg_bytes segs = sum_list (map (\<lambda>(wbs, p). unat (fst p)) segs)"

text \<open>Concrete inputs for the examples: a platform on which the host string
  \<open>10.0.0.1\<close> parses (to the address \<open>0x0A000001\<close>) and no other does,
  \<^verbatim>\<open>connect\<close> reports a handshake in progress, \<^verbatim>\<open>select\<close> reports one ready
  descriptor and no socket error is pending; a Connection on descriptor 3 with a timeout of
  one second and a budget of three failures; a world in which nothing has happened.\<close>

definition demo_env :: env where
  "demo_env = \<lparr>inet_pton_reply = (\<lambda>h. if h = ''10.0.0.1'' then (1, 167772161) else (0, 0)),
     connect_reply = (- 1, EINPROGRESS), select_reply = (\<lambda>n. (1, ENONE)),
     close_reply = (\<lambda>n. (0, ENONE)), so_error = 0\<rparr>"

definition demo_sio :: socketio where
  "demo_sio = \<lparr>socket = 3, opts = 0, timeout = 1, maxnfails = 3\<rparr>"

definition demo_world :: world where
  "demo_world = \<lparr>trace = [], errno = ENONE\<rparr>"

section \<open>Auxiliary facts\<close>

subsection \<open>The world\<close>

lemma trace_record_call: "trace (record_call ev r e w) = trace w @ [ev]"
  by (simp add: record_call_def)

lemma errno_record_call: "errno (record_call ev r e w) = (if r = - 1 then e else errno w)"
  by (simp add: record_call_def)

lemma trace_plat_send:
  "trace (snd (plat_send fd off cnt rp w)) = trace w @ [Send fd off cnt (fst rp)]"
  by (simp add: plat_send_def trace_record_call)

lemma trace_plat_recv:
  "trace (snd (plat_recv fd off cnt rp w)) = trace w @ [Recv fd off cnt (fst rp)]"
  by (simp add: plat_recv_def trace_record_call)

lemma trace_sio_select:
  "trace (snd (sio_select E sio mode w)) =
     trace w @ [Select (socket sio + 1) mode (timeout sio)
                  (fst (select_reply E (length (trace w))))]"
  by (simp add: sio_select_def Let_def trace_record_call split: prod.splits)

lemma new_events_append: "trace w' = trace w @ evs \<Longrightarrow> new_events w w' = evs"
  by (simp add: new_events_def)

lemma transferred_Nil: "transferred [] = 0"
  by (simp add: transferred_def)

lemma transferred_Cons: "transferred (ev # evs) = bytes_of ev + transferred evs"
  by (simp add: transferred_def)

lemma transferred_append: "transferred (xs @ ys) = transferred xs + transferred ys"
  by (simp add: transferred_def)

lemma calls_fit_Nil: "calls_fit s len t []"
  by simp

lemma calls_fit_Cons:
  assumes "call_fits s len t ev" "t + bytes_of ev \<le> unat len"
    "calls_fit s len (t + bytes_of ev) evs"
  shows "calls_fit s len t (ev # evs)"
  using assms by simp

lemma calls_fit_split:
  assumes "calls_fit s len t (pre @ ev # post)"
  shows "call_fits s len (t + transferred pre) ev \<and> t + transferred (pre @ [ev]) \<le> unat len"
  using assms
proof (induction pre arbitrary: t)
  case Nil
  then show ?case by (simp add: transferred_Nil transferred_Cons)
next
  case (Cons a pre)
  from Cons.prems have "calls_fit s len (t + bytes_of a) (pre @ ev # post)" by simp
  from Cons.IH[OF this] show ?case
    by (simp add: transferred_Cons add.assoc)
qed

declare calls_fit.simps [simp del]

subsection \<open>Arithmetic of size\_t\<close>

lemma word_advance:
  fixes t :: size_t
  assumes "t \<le> len" "x \<le> len - t"
  shows "t + x \<le> len" "unat (t + x) = unat t + unat x"
  using assms by unat_arith+

lemma word_remaining:
  fixes t :: size_t
  assumes "t \<le> len"
  shows "unat t + unat (len - t) = unat len"
  using assms by unat_arith

lemma sint_pos_unat:
  fixes x :: ssize_t
  assumes "0 <s x"
  shows "x \<noteq> SOCK_ERR" "0 < unat x"
  using assms by (auto simp: SOCK_ERR_def word_sless_alt unat_gt_0)

subsection \<open>One iteration of the loop of sio\_send\<close>

lemma send_loop_done:
  "\<not> total_bytes < len \<Longrightarrow> send_loop E sio len total_bytes nfails rps w = (Some 0, w)"
  by (cases rps) simp_all

lemma send_loop_Nil:
  "total_bytes < len \<Longrightarrow> send_loop E sio len total_bytes nfails [] w = (None, w)"
  by simp

lemma send_loop_would_block:
  assumes "total_bytes < len" "is_would_block rp"
  shows "send_loop E sio len total_bytes nfails (rp # rps) w =
     (if maxnfails sio \<le> nfails + 1
      then (Some (- 1), snd (sio_select E sio SELECT_WRITE
              (snd (plat_send (socket sio) total_bytes (len - total_bytes) rp w))))
      else send_loop E sio len total_bytes (nfails + 1) rps
             (snd (sio_select E sio SELECT_WRITE
                (snd (plat_send (socket sio) total_bytes (len - total_bytes) rp w)))))"
  using assms
  by (auto simp: is_would_block_def plat_send_def errno_record_call SOCK_ERR_def
      split: prod.splits)

lemma send_loop_progress:
  assumes "total_bytes < len" "fst rp \<noteq> SOCK_ERR"
  shows "send_loop E sio len total_bytes nfails (rp # rps) w =
     send_loop E sio len (total_bytes + fst rp) 0 rps
       (snd (plat_send (socket sio) total_bytes (len - total_bytes) rp w))"
  using assms by (simp add: plat_send_def)

lemma send_loop_error:
  assumes "total_bytes < len" "fst rp = SOCK_ERR" "\<not> is_would_block rp"
  shows "send_loop E sio len total_bytes nfails (rp # rps) w =
     (Some (- 1), snd (plat_send (socket sio) total_bytes (len - total_bytes) rp w))"
  using assms
  by (auto simp: is_would_block_def plat_send_def errno_record_call SOCK_ERR_def
      split: prod.splits)

declare send_loop.simps [simp del]

subsection \<open>Runs of the loop of sio\_send\<close>

text \<open>A loop that is still running after the answers \<open>pre\<close> stands at the head of the
  loop, below \<open>len\<close> and with a counter that is not negative and that is 0 or below
  \<open>maxnfails\<close>: the increment of the next iteration stays in the range of
  \<^verbatim>\<open>int\<close>.\<close>

lemma send_loop_running:
  assumes "fst (send_loop E sio len total_bytes nfails pre w) = None" "0 \<le> nfails"
    "nfails = 0 \<or> nfails < maxnfails sio"
  shows "\<exists>t n w'. t < len \<and> 0 \<le> n \<and> (n = 0 \<or> n < maxnfails sio) \<and>
           (\<forall>more. send_loop E sio len total_bytes nfails (pre @ more) w
                    = send_loop E sio len t n more w')"
  using assms
proof (induction pre arbitrary: total_bytes nfails w)
  case Nil
  then have "total_bytes < len" by (rule_tac ccontr) (simp add: send_loop_done)
  with Nil show ?case by auto
next
  case (Cons rp pre)
  let ?w1 = "snd (plat_send (socket sio) total_bytes (len - total_bytes) rp w)"
  let ?w2 = "snd (sio_select E sio SELECT_WRITE ?w1)"
  have lt: "total_bytes < len"
    using Cons.prems(1) by (rule_tac ccontr) (simp add: send_loop_done)
  show ?case
  proof (cases "fst rp = SOCK_ERR")
    case False
    with lt Cons.prems
    have "fst (send_loop E sio len (total_bytes + fst rp) 0 pre ?w1) = None"
      by (simp add: send_loop_progress)
    from Cons.IH[OF this] obtain t n w' where
      "t < len" "0 \<le> n" "n = 0 \<or> n < maxnfails sio"
      "\<forall>more. send_loop E sio len (total_bytes + fst rp) 0 (pre @ more) ?w1
         = send_loop E sio len t n more w'" by auto
    with lt False show ?thesis
      by (auto simp: send_loop_progress)
  next
    case True
    show ?thesis
    proof (cases "is_would_block rp")
      case wb: True
      with lt Cons.prems(1) have nm: "\<not> maxnfails sio \<le> nfails + 1"
        by (auto simp: send_loop_would_block split: if_splits)
      with wb lt Cons.prems(1)
      have "fst (send_loop E sio len total_bytes (nfails + 1) pre ?w2) = None"
        by (simp add: send_loop_would_block)
      moreover have "0 \<le> nfails + 1" using Cons.prems(2) by simp
      moreover have "nfails + 1 = 0 \<or> nfails + 1 < maxnfails sio" using nm by simp
      ultimately obtain t n w' where
        "t < len" "0 \<le> n" "n = 0 \<or> n < maxnfails sio"
        "\<forall>more. send_loop E sio len total_bytes (nfails + 1) (pre @ more) ?w2
            = send_loop E sio len t n more w'"
        using Cons.IH by blast
      with lt wb nm show ?thesis
        by (auto simp: send_loop_would_block)
    next
      case False
      with True lt Cons.prems(1) show ?thesis
        by (simp add: send_loop_error)
    qed
  qed
qed

text \<open>From any such point, a run of would-block answers that reaches \<open>maxnfails\<close> ends
  the loop with \<open>-1\<close>, and what the platform would answer afterwards is never asked
  for.\<close>

lemma send_loop_exhaust:
  assumes "total_bytes < len" "\<forall>rp\<in>set wbs. is_would_block rp" "wbs \<noteq> []"
    "maxnfails sio \<le> nfails + int (length wbs)"
  shows "send_loop E sio len total_bytes nfails (wbs @ rest) w
         = send_loop E sio len total_bytes nfails wbs w
       \<and> fst (send_loop E sio len total_bytes nfails wbs w) = Some (- 1)"
  using assms
proof (induction wbs arbitrary: nfails w)
  case Nil
  then show ?case by simp
next
  case (Cons rp wbs)
  have wb: "is_would_block rp" using Cons.prems(2) by simp
  show ?case
  proof (cases "maxnfails sio \<le> nfails + 1")
    case True
    with wb Cons.prems(1) show ?thesis
      by (simp add: send_loop_would_block)
  next
    case False
    with Cons.prems(4) have ne: "wbs \<noteq> []" by auto
    have "maxnfails sio \<le> (nfails + 1) + int (length wbs)"
      using Cons.prems(4) by simp
    with Cons.IH[OF Cons.prems(1) _ ne, of "nfails + 1"] Cons.prems(2)
    show ?thesis using wb False Cons.prems(1)
      by (simp add: send_loop_would_block)
  qed
qed

text \<open>A run of would-block answers that stays below \<open>maxnfails\<close> only moves the
  counter.\<close>

lemma send_loop_wb_run:
  assumes "t < len" "\<forall>rp\<in>set wbs. is_would_block rp" "n + int (length wbs) < maxnfails sio"
  shows "\<exists>w'. \<forall>rest. send_loop E sio len t n (wbs @ rest) w
                 = send_loop E sio len t (n + int (length wbs)) rest w'"
  using assms
proof (induction wbs arbitrary: n w)
  case Nil
  then show ?case by auto
next
  case (Cons rp wbs)
  let ?w2 = "snd (sio_select E sio SELECT_WRITE (snd (plat_send (socket sio) t (len - t) rp w)))"
  have "n + 1 + int (length wbs) < maxnfails sio" using Cons.prems(3) by simp
  moreover have "\<forall>rp\<in>set wbs. is_would_block rp" using Cons.prems(2) by simp
  ultimately obtain w' where
    run: "\<forall>rest. send_loop E sio len t (n + 1) (wbs @ rest) ?w2
      = send_loop E sio len t (n + 1 + int (length wbs)) rest w'"
    using Cons.IH[OF Cons.prems(1), of "n + 1"] by blast
  have nm: "\<not> maxnfails sio \<le> n + 1" using Cons.prems(3) by simp
  have eq: "n + 1 + int (length wbs) = n + int (length (rp # wbs))" by simp
  have wb: "is_would_block rp" using Cons.prems(2) by simp
  show ?case
  proof (intro exI[of _ w'] allI)
    fix rest
    show "send_loop E sio len t n ((rp # wbs) @ rest) w
          = send_loop E sio len t (n + int (length (rp # wbs))) rest w'"
      using run nm wb Cons.prems(1) unfolding eq[symmetric]
      by (simp add: send_loop_would_block)
  qed
qed

text \<open>Segments whose would-block runs stay below \<open>maxnfails\<close>. When the closing
  answers add up to the bytes that were missing, the loop returns 0, whatever the platform
  would answer afterwards.\<close>

lemma send_loop_segs_done:
  assumes "unat t + seg_bytes segs = unat len"
    "\<forall>(wbs, p)\<in>set segs. (\<forall>rp\<in>set wbs. is_would_block rp)
        \<and> int (length wbs) < maxnfails sio \<and> fst p \<noteq> SOCK_ERR"
  shows "fst (send_loop E sio len t 0 (seg_script segs @ rest) w) = Some 0"
  using assms
proof (induction segs arbitrary: t w)
  case Nil
  then have "\<not> t < len" by (simp add: seg_bytes_def word_less_nat_alt)
  then show ?case by (simp add: send_loop_done)
next
  case (Cons seg segs)
  obtain wbs p where seg: "seg = (wbs, p)" by (cases seg)
  from Cons.prems(2) seg have wbs: "\<forall>rp\<in>set wbs. is_would_block rp"
    and k: "0 + int (length wbs) < maxnfails sio" and p: "fst p \<noteq> SOCK_ERR" by auto
  from Cons.prems(1) seg have sum: "unat t + unat (fst p) + seg_bytes segs = unat len"
    by (simp add: seg_bytes_def)
  show ?case
  proof (cases "t < len")
    case False
    then show ?thesis by (simp add: send_loop_done)
  next
    case lt: True
    from send_loop_wb_run[OF lt wbs k] obtain w1 where
      run: "\<And>more. send_loop E sio len t 0 (wbs @ more) w
               = send_loop E sio len t (0 + int (length wbs)) more w1" by blast
    have "unat t + unat (fst p) < 2 ^ LENGTH(64)"
      using sum unsigned_less[of len, where 'a=nat] by simp
    then have adv: "unat (t + fst p) = unat t + unat (fst p)"
      by (simp only: unat_add_lem)
    have "fst (send_loop E sio len (t + fst p) 0 (seg_script segs @ rest)
             (snd (plat_send (socket sio) t (len - t) p w1))) = Some 0"
      using Cons.IH[of "t + fst p"] Cons.prems(2) sum adv by simp
    then show ?thesis
      using run[of "p # seg_script segs @ rest"] lt p seg
      by (simp add: seg_script_def send_loop_progress)
  qed
qed

text \<open>When they add up to less, the loop runs through them and stands at the head of the
  loop again, with the counter at 0.\<close>

lemma send_loop_segs_through:
  assumes "unat t + seg_bytes segs < unat len"
    "\<forall>(wbs, p)\<in>set segs. (\<forall>rp\<in>set wbs. is_would_block rp)
        \<and> int (length wbs) < maxnfails sio \<and> fst p \<noteq> SOCK_ERR"
  shows "\<exists>t' w'. unat t' = unat t + seg_bytes segs \<and>
           (\<forall>rest. send_loop E sio len t 0 (seg_script segs @ rest) w
                    = send_loop E sio len t' 0 rest w')"
  using assms
proof (induction segs arbitrary: t w)
  case Nil
  have "unat t = unat t + seg_bytes [] \<and>
           (\<forall>rest. send_loop E sio len t 0 (seg_script [] @ rest) w
                    = send_loop E sio len t 0 rest w)"
    by (simp add: seg_script_def seg_bytes_def)
  then show ?case by blast
next
  case (Cons seg segs)
  obtain wbs p where seg: "seg = (wbs, p)" by (cases seg)
  from Cons.prems(2) seg have wbs: "\<forall>rp\<in>set wbs. is_would_block rp"
    and k: "0 + int (length wbs) < maxnfails sio" and p: "fst p \<noteq> SOCK_ERR" by auto
  from Cons.prems(1) seg have sum: "unat t + unat (fst p) + seg_bytes segs < unat len"
    by (simp add: seg_bytes_def)
  have bytes: "seg_bytes (seg # segs) = unat (fst p) + seg_bytes segs"
    using seg by (simp add: seg_bytes_def)
  have lt: "t < len" using sum by (simp add: word_less_nat_alt)
  from send_loop_wb_run[OF lt wbs k] obtain w1 where
    run: "\<And>more. send_loop E sio len t 0 (wbs @ more) w
             = send_loop E sio len t (0 + int (length wbs)) more w1" by blast
  have "unat t + unat (fst p) < 2 ^ LENGTH(64)"
    using sum unsigned_less[of len, where 'a=nat] by simp
  then have adv: "unat (t + fst p) = unat t + unat (fst p)"
    by (simp only: unat_add_lem)
  have "unat (t + fst p) + seg_bytes segs < unat len" using sum adv by simp
  from Cons.IH[OF this, of "snd (plat_send (socket sio) t (len - t) p w1)"] Cons.prems(2)
  obtain t' w' where t': "unat t' = unat (t + fst p) + seg_bytes segs"
    and thr: "\<And>rest. send_loop E sio len (t + fst p) 0 (seg_script segs @ rest)
                  (snd (plat_send (socket sio) t (len - t) p w1))
               = send_loop E sio len t' 0 rest w'" by auto
  have "unat t' = unat t + seg_bytes (seg # segs)"
    using t' adv bytes by simp
  moreover have "send_loop E sio len t 0 (seg_script (seg # segs) @ rest) w
                 = send_loop E sio len t' 0 rest w'" for rest
    using run[of "p # seg_script segs @ rest"] thr[of rest] lt p seg
    by (simp add: seg_script_def send_loop_progress)
  ultimately show ?case by blast
qed

text \<open>A further run of would-block answers below \<open>maxnfails\<close> then leaves the loop
  running: it has not returned, so it has not failed.\<close>

lemma send_loop_segs_running:
  assumes "unat t + seg_bytes segs < unat len"
    "\<forall>(wbs, p)\<in>set segs. (\<forall>rp\<in>set wbs. is_would_block rp)
        \<and> int (length wbs) < maxnfails sio \<and> fst p \<noteq> SOCK_ERR"
    "\<forall>rp\<in>set wbs. is_would_block rp" "int (length wbs) < maxnfails sio"
  shows "fst (send_loop E sio len t 0 (seg_script segs @ wbs) w) = None"
proof -
  from send_loop_segs_through[OF assms(1,2), of E w] obtain t' w' where
    t': "unat t' = unat t + seg_bytes segs" and
    thr: "\<And>rest. send_loop E sio len t 0 (seg_script segs @ rest) w
               = send_loop E sio len t' 0 rest w'" by blast
  have lt: "t' < len" using t' assms(1) by (simp add: word_less_nat_alt)
  have k: "0 + int (length wbs) < maxnfails sio" using assms(4) by simp
  from send_loop_wb_run[OF lt assms(3) k] obtain w1 where
    "send_loop E sio len t' 0 (wbs @ []) w' = send_loop E sio len t' (0 + int (length wbs)) [] w1"
    by blast
  with thr[of wbs] lt show ?thesis by (simp add: send_loop_Nil)
qed

text \<open>What the loop adds to the trace. When the platform keeps to the request, every call
  fits the buffer, and a return of 0 means that the calls moved the missing bytes.\<close>

lemma send_loop_trace:
  assumes "send_loop E sio len t n rps w = (r, w')"
  shows "\<exists>evs. trace w' = trace w @ evs \<and>
           (t \<le> len \<longrightarrow> (\<forall>ev\<in>set evs. within_request ev) \<longrightarrow>
              calls_fit (socket sio) len (unat t) evs
              \<and> (r = Some 0 \<longrightarrow> unat t + transferred evs = unat len))"
  using assms
proof (induction rps arbitrary: t n w)
  case Nil
  then show ?case
    by (cases "t < len") (auto simp: send_loop_done send_loop_Nil calls_fit_Nil transferred_Nil)
next
  case (Cons rp rps)
  let ?S = "Send (socket sio) t (len - t) (fst rp)"
  let ?w1 = "snd (plat_send (socket sio) t (len - t) rp w)"
  let ?w2 = "snd (sio_select E sio SELECT_WRITE ?w1)"
  let ?Sel = "Select (socket sio + 1) SELECT_WRITE (timeout sio)
                  (fst (select_reply E (length (trace ?w1))))"
  have S_fits: "call_fits (socket sio) len (unat t) ?S" if "t \<le> len"
    using word_remaining[OF that] by simp
  show ?case
  proof (cases "t < len")
    case False
    with Cons.prems show ?thesis
      by (auto simp: send_loop_done calls_fit_Nil transferred_Nil)
  next
    case lt: True
    show ?thesis
    proof (cases "fst rp = SOCK_ERR")
      case False
      with lt Cons.prems have "send_loop E sio len (t + fst rp) 0 rps ?w1 = (r, w')"
        by (simp add: send_loop_progress)
      from Cons.IH[OF this] obtain evs where
        tr: "trace w' = trace ?w1 @ evs" and
        ih: "t + fst rp \<le> len \<longrightarrow> (\<forall>ev\<in>set evs. within_request ev) \<longrightarrow>
              calls_fit (socket sio) len (unat (t + fst rp)) evs
              \<and> (r = Some 0 \<longrightarrow> unat (t + fst rp) + transferred evs = unat len)" by blast
      have "trace w' = trace w @ ?S # evs"
        using tr by (simp add: trace_plat_send)
      moreover have "calls_fit (socket sio) len (unat t) (?S # evs)
            \<and> (r = Some 0 \<longrightarrow> unat t + transferred (?S # evs) = unat len)"
        if "t \<le> len" "\<forall>ev\<in>set (?S # evs). within_request ev"
      proof -
        from that(2) False have le: "fst rp \<le> len - t" by simp
        note adv = word_advance[OF that(1) le]
        have b: "unat t + bytes_of ?S \<le> unat len"
          using adv False by (simp add: word_le_nat_alt)
        have rest: "calls_fit (socket sio) len (unat t + bytes_of ?S) evs"
          "r = Some 0 \<longrightarrow> unat t + bytes_of ?S + transferred evs = unat len"
          using ih adv that(2) False by simp_all
        have "calls_fit (socket sio) len (unat t) (?S # evs)"
          using S_fits[OF that(1)] b rest(1) by (rule calls_fit_Cons)
        with rest(2) show ?thesis by (auto simp: transferred_Cons)
      qed
      ultimately show ?thesis by blast
    next
      case True
      have b0: "bytes_of ?S = 0" using True by simp
      show ?thesis
      proof (cases "is_would_block rp")
        case wb: True
        show ?thesis
        proof (cases "maxnfails sio \<le> n + 1")
          case True
          with wb lt Cons.prems have r: "r = Some (- 1)" and "w' = ?w2"
            by (auto simp: send_loop_would_block)
          then have "trace w' = trace w @ ?S # [?Sel]"
            by (simp add: trace_sio_select trace_plat_send)
          moreover have "calls_fit (socket sio) len (unat t) (?S # [?Sel])" if "t \<le> len"
            using S_fits[OF that] b0 that
            by (intro calls_fit_Cons) (simp_all add: calls_fit_Nil word_le_nat_alt)
          ultimately show ?thesis using r by auto
        next
          case False
          with wb lt Cons.prems have "send_loop E sio len t (n + 1) rps ?w2 = (r, w')"
            by (simp add: send_loop_would_block)
          from Cons.IH[OF this] obtain evs where
            tr: "trace w' = trace ?w2 @ evs" and
            ih: "t \<le> len \<longrightarrow> (\<forall>ev\<in>set evs. within_request ev) \<longrightarrow>
              calls_fit (socket sio) len (unat t) evs
              \<and> (r = Some 0 \<longrightarrow> unat t + transferred evs = unat len)" by blast
          from tr have "trace w' = trace w @ ?S # ?Sel # evs"
            by (simp add: trace_sio_select trace_plat_send)
          moreover have "calls_fit (socket sio) len (unat t) (?S # ?Sel # evs)"
            if "t \<le> len" "\<forall>ev\<in>set (?S # ?Sel # evs). within_request ev"
            using S_fits[OF that(1)] b0 that ih
            by (intro calls_fit_Cons) (simp_all add: word_le_nat_alt)
          moreover have "transferred (?S # ?Sel # evs) = transferred evs"
            using b0 by (simp add: transferred_Cons)
          ultimately show ?thesis using ih by auto
        qed
      next
        case False
        with True lt Cons.prems have r: "r = Some (- 1)" and "w' = ?w1"
          by (auto simp: send_loop_error)
        then have "trace w' = trace w @ [?S]" by (simp add: trace_plat_send)
        moreover have "calls_fit (socket sio) len (unat t) [?S]" if "t \<le> len"
          using S_fits[OF that] b0 that
          by (intro calls_fit_Cons) (simp_all add: calls_fit_Nil word_le_nat_alt)
        ultimately show ?thesis using r by auto
      qed
    qed
  qed
qed

lemma send_loop_first_call:
  assumes "t < len"
  shows "\<exists>evs. trace (snd (send_loop E sio len t n (rp # rps) w))
               = trace w @ Send (socket sio) t (len - t) (fst rp) # evs"
proof -
  let ?w1 = "snd (plat_send (socket sio) t (len - t) rp w)"
  let ?w2 = "snd (sio_select E sio SELECT_WRITE ?w1)"
  have ext: "\<exists>evs. trace (snd (send_loop E sio len t' n' rps w')) = trace w' @ evs"
    for t' n' w'
    using send_loop_trace[of E sio len t' n' rps w'] by (metis surjective_pairing)
  show ?thesis
  proof (cases "fst rp = SOCK_ERR")
    case False
    with assms ext[of "t + fst rp" 0 ?w1] show ?thesis
      by (auto simp: send_loop_progress trace_plat_send)
  next
    case True
    show ?thesis
    proof (cases "is_would_block rp")
      case wb: True
      with assms ext[of t "n + 1" ?w2] show ?thesis
        by (auto simp: send_loop_would_block trace_plat_send trace_sio_select)
    next
      case False
      with True assms show ?thesis
        by (simp add: send_loop_error trace_plat_send)
    qed
  qed
qed

subsection \<open>One iteration of the loop of sio\_recv\<close>

lemma recv_loop_done:
  "\<not> total_bytes < len \<Longrightarrow> recv_loop E sio len total_bytes nfails rps w = (Some 0, w)"
  by (cases rps) simp_all

lemma recv_loop_Nil:
  "total_bytes < len \<Longrightarrow> recv_loop E sio len total_bytes nfails [] w = (None, w)"
  by simp

lemma recv_loop_would_block:
  assumes "total_bytes < len" "is_would_block rp"
  shows "recv_loop E sio len total_bytes nfails (rp # rps) w =
     (if maxnfails sio \<le> nfails + 1
      then (Some (- 1), snd (sio_select E sio SELECT_READ
              (snd (plat_recv (socket sio) total_bytes (len - total_bytes) rp w))))
      else recv_loop E sio len total_bytes (nfails + 1) rps
             (snd (sio_select E sio SELECT_READ
                (snd (plat_recv (socket sio) total_bytes (len - total_bytes) rp w)))))"
  using assms
  by (auto simp: is_would_block_def plat_recv_def errno_record_call SOCK_ERR_def
      split: prod.splits)

lemma recv_loop_progress:
  assumes "total_bytes < len" "0 <s fst rp"
  shows "recv_loop E sio len total_bytes nfails (rp # rps) w =
     recv_loop E sio len (total_bytes + fst rp) 0 rps
       (snd (plat_recv (socket sio) total_bytes (len - total_bytes) rp w))"
  using assms sint_pos_unat(1)[of "fst rp"] by (simp add: plat_recv_def)

lemma recv_loop_closed:
  assumes "total_bytes < len" "fst rp \<noteq> SOCK_ERR" "\<not> 0 <s fst rp"
  shows "recv_loop E sio len total_bytes nfails (rp # rps) w =
     (Some (- 1), snd (plat_recv (socket sio) total_bytes (len - total_bytes) rp w))"
  using assms by (simp add: plat_recv_def)

lemma recv_loop_error:
  assumes "total_bytes < len" "fst rp = SOCK_ERR" "\<not> is_would_block rp"
  shows "recv_loop E sio len total_bytes nfails (rp # rps) w =
     (Some (- 1), snd (plat_recv (socket sio) total_bytes (len - total_bytes) rp w))"
  using assms
  by (auto simp: is_would_block_def plat_recv_def errno_record_call SOCK_ERR_def
      split: prod.splits)

declare recv_loop.simps [simp del]

subsection \<open>Runs of the loop of sio\_recv\<close>

text \<open>A loop that is still running after the answers \<open>pre\<close> stands at the head of the
  loop, below \<open>len\<close> and with a counter that is not negative and that is 0 or below
  \<open>maxnfails\<close>: the increment of the next iteration stays in the range of
  \<^verbatim>\<open>int\<close>.\<close>

lemma recv_loop_running:
  assumes "fst (recv_loop E sio len total_bytes nfails pre w) = None" "0 \<le> nfails"
    "nfails = 0 \<or> nfails < maxnfails sio"
  shows "\<exists>t n w'. t < len \<and> 0 \<le> n \<and> (n = 0 \<or> n < maxnfails sio) \<and>
           (\<forall>more. recv_loop E sio len total_bytes nfails (pre @ more) w
                    = recv_loop E sio len t n more w')"
  using assms
proof (induction pre arbitrary: total_bytes nfails w)
  case Nil
  then have "total_bytes < len" by (rule_tac ccontr) (simp add: recv_loop_done)
  with Nil show ?case by auto
next
  case (Cons rp pre)
  let ?w1 = "snd (plat_recv (socket sio) total_bytes (len - total_bytes) rp w)"
  let ?w2 = "snd (sio_select E sio SELECT_READ ?w1)"
  have lt: "total_bytes < len"
    using Cons.prems(1) by (rule_tac ccontr) (simp add: recv_loop_done)
  show ?case
  proof (cases "fst rp = SOCK_ERR")
    case False
    have pos: "0 <s fst rp"
      using False lt Cons.prems(1) by (rule_tac ccontr) (simp add: recv_loop_closed)
    with lt Cons.prems
    have "fst (recv_loop E sio len (total_bytes + fst rp) 0 pre ?w1) = None"
      by (simp add: recv_loop_progress)
    from Cons.IH[OF this] obtain t n w' where
      "t < len" "0 \<le> n" "n = 0 \<or> n < maxnfails sio"
      "\<forall>more. recv_loop E sio len (total_bytes + fst rp) 0 (pre @ more) ?w1
         = recv_loop E sio len t n more w'" by auto
    with lt pos show ?thesis
      by (auto simp: recv_loop_progress)
  next
    case True
    show ?thesis
    proof (cases "is_would_block rp")
      case wb: True
      with lt Cons.prems(1) have nm: "\<not> maxnfails sio \<le> nfails + 1"
        by (auto simp: recv_loop_would_block split: if_splits)
      with wb lt Cons.prems(1)
      have "fst (recv_loop E sio len total_bytes (nfails + 1) pre ?w2) = None"
        by (simp add: recv_loop_would_block)
      moreover have "0 \<le> nfails + 1" using Cons.prems(2) by simp
      moreover have "nfails + 1 = 0 \<or> nfails + 1 < maxnfails sio" using nm by simp
      ultimately obtain t n w' where
        "t < len" "0 \<le> n" "n = 0 \<or> n < maxnfails sio"
        "\<forall>more. recv_loop E sio len total_bytes (nfails + 1) (pre @ more) ?w2
            = recv_loop E sio len t n more w'"
        using Cons.IH by blast
      with lt wb nm show ?thesis
        by (auto simp: recv_loop_would_block)
    next
      case False
      with True lt Cons.prems(1) show ?thesis
        by (simp add: recv_loop_error)
    qed
  qed
qed

text \<open>From any such point, a run of would-block answers that reaches \<open>maxnfails\<close> ends
  the loop with \<open>-1\<close>, and what the platform would answer afterwards is never asked
  for.\<close>

lemma recv_loop_exhaust:
  assumes "total_bytes < len" "\<forall>rp\<in>set wbs. is_would_block rp" "wbs \<noteq> []"
    "maxnfails sio \<le> nfails + int (length wbs)"
  shows "recv_loop E sio len total_bytes nfails (wbs @ rest) w
         = recv_loop E sio len total_bytes nfails wbs w
       \<and> fst (recv_loop E sio len total_bytes nfails wbs w) = Some (- 1)"
  using assms
proof (induction wbs arbitrary: nfails w)
  case Nil
  then show ?case by simp
next
  case (Cons rp wbs)
  have wb: "is_would_block rp" using Cons.prems(2) by simp
  show ?case
  proof (cases "maxnfails sio \<le> nfails + 1")
    case True
    with wb Cons.prems(1) show ?thesis
      by (simp add: recv_loop_would_block)
  next
    case False
    with Cons.prems(4) have ne: "wbs \<noteq> []" by auto
    have "maxnfails sio \<le> (nfails + 1) + int (length wbs)"
      using Cons.prems(4) by simp
    with Cons.IH[OF Cons.prems(1) _ ne, of "nfails + 1"] Cons.prems(2)
    show ?thesis using wb False Cons.prems(1)
      by (simp add: recv_loop_would_block)
  qed
qed

text \<open>A run of would-block answers that stays below \<open>maxnfails\<close> only moves the
  counter.\<close>

lemma recv_loop_wb_run:
  assumes "t < len" "\<forall>rp\<in>set wbs. is_would_block rp" "n + int (length wbs) < maxnfails sio"
  shows "\<exists>w'. \<forall>rest. recv_loop E sio len t n (wbs @ rest) w
                 = recv_loop E sio len t (n + int (length wbs)) rest w'"
  using assms
proof (induction wbs arbitrary: n w)
  case Nil
  then show ?case by auto
next
  case (Cons rp wbs)
  let ?w2 = "snd (sio_select E sio SELECT_READ (snd (plat_recv (socket sio) t (len - t) rp w)))"
  have "n + 1 + int (length wbs) < maxnfails sio" using Cons.prems(3) by simp
  moreover have "\<forall>rp\<in>set wbs. is_would_block rp" using Cons.prems(2) by simp
  ultimately obtain w' where
    run: "\<forall>rest. recv_loop E sio len t (n + 1) (wbs @ rest) ?w2
      = recv_loop E sio len t (n + 1 + int (length wbs)) rest w'"
    using Cons.IH[OF Cons.prems(1), of "n + 1"] by blast
  have nm: "\<not> maxnfails sio \<le> n + 1" using Cons.prems(3) by simp
  have eq: "n + 1 + int (length wbs) = n + int (length (rp # wbs))" by simp
  have wb: "is_would_block rp" using Cons.prems(2) by simp
  show ?case
  proof (intro exI[of _ w'] allI)
    fix rest
    show "recv_loop E sio len t n ((rp # wbs) @ rest) w
          = recv_loop E sio len t (n + int (length (rp # wbs))) rest w'"
      using run nm wb Cons.prems(1) unfolding eq[symmetric]
      by (simp add: recv_loop_would_block)
  qed
qed

text \<open>Segments whose would-block runs stay below \<open>maxnfails\<close>. When the closing
  answers add up to the bytes that were missing, the loop returns 0, whatever the platform
  would answer afterwards.\<close>

lemma recv_loop_segs_done:
  assumes "unat t + seg_bytes segs = unat len"
    "\<forall>(wbs, p)\<in>set segs. (\<forall>rp\<in>set wbs. is_would_block rp)
        \<and> int (length wbs) < maxnfails sio \<and> 0 <s fst p"
  shows "fst (recv_loop E sio len t 0 (seg_script segs @ rest) w) = Some 0"
  using assms
proof (induction segs arbitrary: t w)
  case Nil
  then have "\<not> t < len" by (simp add: seg_bytes_def word_less_nat_alt)
  then show ?case by (simp add: recv_loop_done)
next
  case (Cons seg segs)
  obtain wbs p where seg: "seg = (wbs, p)" by (cases seg)
  from Cons.prems(2) seg have wbs: "\<forall>rp\<in>set wbs. is_would_block rp"
    and k: "0 + int (length wbs) < maxnfails sio" and p: "0 <s fst p" by auto
  from Cons.prems(1) seg have sum: "unat t + unat (fst p) + seg_bytes segs = unat len"
    by (simp add: seg_bytes_def)
  show ?case
  proof (cases "t < len")
    case False
    then show ?thesis by (simp add: recv_loop_done)
  next
    case lt: True
    from recv_loop_wb_run[OF lt wbs k] obtain w1 where
      run: "\<And>more. recv_loop E sio len t 0 (wbs @ more) w
               = recv_loop E sio len t (0 + int (length wbs)) more w1" by blast
    have "unat t + unat (fst p) < 2 ^ LENGTH(64)"
      using sum unsigned_less[of len, where 'a=nat] by simp
    then have adv: "unat (t + fst p) = unat t + unat (fst p)"
      by (simp only: unat_add_lem)
    have "fst (recv_loop E sio len (t + fst p) 0 (seg_script segs @ rest)
             (snd (plat_recv (socket sio) t (len - t) p w1))) = Some 0"
      using Cons.IH[of "t + fst p"] Cons.prems(2) sum adv by simp
    then show ?thesis
      using run[of "p # seg_script segs @ rest"] lt p seg
      by (simp add: seg_script_def recv_loop_progress)
  qed
qed

text \<open>When they add up to less, the loop runs through them and stands at the head of the
  loop again, with the counter at 0.\<close>

lemma recv_loop_segs_through:
  assumes "unat t + seg_bytes segs < unat len"
    "\<forall>(wbs, p)\<in>set segs. (\<forall>rp\<in>set wbs. is_would_block rp)
        \<and> int (length wbs) < maxnfails sio \<and> 0 <s fst p"
  shows "\<exists>t' w'. unat t' = unat t + seg_bytes segs \<and>
           (\<forall>rest. recv_loop E sio len t 0 (seg_script segs @ rest) w
                    = recv_loop E sio len t' 0 rest w')"
  using assms
proof (induction segs arbitrary: t w)
  case Nil
  have "unat t = unat t + seg_bytes [] \<and>
           (\<forall>rest. recv_loop E sio len t 0 (seg_script [] @ rest) w
                    = recv_loop E sio len t 0 rest w)"
    by (simp add: seg_script_def seg_bytes_def)
  then show ?case by blast
next
  case (Cons seg segs)
  obtain wbs p where seg: "seg = (wbs, p)" by (cases seg)
  from Cons.prems(2) seg have wbs: "\<forall>rp\<in>set wbs. is_would_block rp"
    and k: "0 + int (length wbs) < maxnfails sio" and p: "0 <s fst p" by auto
  from Cons.prems(1) seg have sum: "unat t + unat (fst p) + seg_bytes segs < unat len"
    by (simp add: seg_bytes_def)
  have bytes: "seg_bytes (seg # segs) = unat (fst p) + seg_bytes segs"
    using seg by (simp add: seg_bytes_def)
  have lt: "t < len" using sum by (simp add: word_less_nat_alt)
  from recv_loop_wb_run[OF lt wbs k] obtain w1 where
    run: "\<And>more. recv_loop E sio len t 0 (wbs @ more) w
             = recv_loop E sio len t (0 + int (length wbs)) more w1" by blast
  have "unat t + unat (fst p) < 2 ^ LENGTH(64)"
    using sum unsigned_less[of len, where 'a=nat] by simp
  then have adv: "unat (t + fst p) = unat t + unat (fst p)"
    by (simp only: unat_add_lem)
  have "unat (t + fst p) + seg_bytes segs < unat len" using sum adv by simp
  from Cons.IH[OF this, of "snd (plat_recv (socket sio) t (len - t) p w1)"] Cons.prems(2)
  obtain t' w' where t': "unat t' = unat (t + fst p) + seg_bytes segs"
    and thr: "\<And>rest. recv_loop E sio len (t + fst p) 0 (seg_script segs @ rest)
                  (snd (plat_recv (socket sio) t (len - t) p w1))
               = recv_loop E sio len t' 0 rest w'" by auto
  have "unat t' = unat t + seg_bytes (seg # segs)"
    using t' adv bytes by simp
  moreover have "recv_loop E sio len t 0 (seg_script (seg # segs) @ rest) w
                 = recv_loop E sio len t' 0 rest w'" for rest
    using run[of "p # seg_script segs @ rest"] thr[of rest] lt p seg
    by (simp add: seg_script_def recv_loop_progress)
  ultimately show ?case by blast
qed

text \<open>A further run of would-block answers below \<open>maxnfails\<close> then leaves the loop
  running: it has not returned, so it has not failed.\<close>

lemma recv_loop_segs_running:
  assumes "unat t + seg_bytes segs < unat len"
    "\<forall>(wbs, p)\<in>set segs. (\<forall>rp\<in>set wbs. is_would_block rp)
        \<and> int (length wbs) < maxnfails sio \<and> 0 <s fst p"
    "\<forall>rp\<in>set wbs. is_would_block rp" "int (length wbs) < maxnfails sio"
  shows "fst (recv_loop E sio len t 0 (seg_script segs @ wbs) w) = None"
proof -
  from recv_loop_segs_through[OF assms(1,2), of E w] obtain t' w' where
    t': "unat t' = unat t + seg_bytes segs" and
    thr: "\<And>rest. recv_loop E sio len t 0 (seg_script segs @ rest) w
               = recv_loop E sio len t' 0 rest w'" by blast
  have lt: "t' < len" using t' assms(1) by (simp add: word_less_nat_alt)
  have k: "0 + int (length wbs) < maxnfails sio" using assms(4) by simp
  from recv_loop_wb_run[OF lt assms(3) k] obtain w1 where
    "recv_loop E sio len t' 0 (wbs @ []) w' = recv_loop E sio len t' (0 + int (length wbs)) [] w1"
    by blast
  with thr[of wbs] lt show ?thesis by (simp add: recv_loop_Nil)
qed

text \<open>What the loop adds to the trace. When the platform keeps to the request, every call
  fits the buffer, and a return of 0 means that the calls moved the missing bytes.\<close>

lemma recv_loop_trace:
  assumes "recv_loop E sio len t n rps w = (r, w')"
  shows "\<exists>evs. trace w' = trace w @ evs \<and>
           (t \<le> len \<longrightarrow> (\<forall>ev\<in>set evs. within_request ev) \<longrightarrow>
              calls_fit (socket sio) len (unat t) evs
              \<and> (r = Some 0 \<longrightarrow> unat t + transferred evs = unat len))"
  using assms
proof (induction rps arbitrary: t n w)
  case Nil
  then show ?case
    by (cases "t < len") (auto simp: recv_loop_done recv_loop_Nil calls_fit_Nil transferred_Nil)
next
  case (Cons rp rps)
  let ?S = "Recv (socket sio) t (len - t) (fst rp)"
  let ?w1 = "snd (plat_recv (socket sio) t (len - t) rp w)"
  let ?w2 = "snd (sio_select E sio SELECT_READ ?w1)"
  let ?Sel = "Select (socket sio + 1) SELECT_READ (timeout sio)
                  (fst (select_reply E (length (trace ?w1))))"
  have S_fits: "call_fits (socket sio) len (unat t) ?S" if "t \<le> len"
    using word_remaining[OF that] by simp
  show ?case
  proof (cases "t < len")
    case False
    with Cons.prems show ?thesis
      by (auto simp: recv_loop_done calls_fit_Nil transferred_Nil)
  next
    case lt: True
    show ?thesis
    proof (cases "fst rp = SOCK_ERR")
      case False
      show ?thesis
      proof (cases "0 <s fst rp")
        case pos: True
        with lt Cons.prems have "recv_loop E sio len (t + fst rp) 0 rps ?w1 = (r, w')"
          by (simp add: recv_loop_progress)
        from Cons.IH[OF this] obtain evs where
          tr: "trace w' = trace ?w1 @ evs" and
          ih: "t + fst rp \<le> len \<longrightarrow> (\<forall>ev\<in>set evs. within_request ev) \<longrightarrow>
                calls_fit (socket sio) len (unat (t + fst rp)) evs
                \<and> (r = Some 0 \<longrightarrow> unat (t + fst rp) + transferred evs = unat len)" by blast
        have "trace w' = trace w @ ?S # evs"
          using tr by (simp add: trace_plat_recv)
        moreover have "calls_fit (socket sio) len (unat t) (?S # evs)
              \<and> (r = Some 0 \<longrightarrow> unat t + transferred (?S # evs) = unat len)"
          if "t \<le> len" "\<forall>ev\<in>set (?S # evs). within_request ev"
        proof -
          from that(2) False have le: "fst rp \<le> len - t" by simp
          note adv = word_advance[OF that(1) le]
          have b: "unat t + bytes_of ?S \<le> unat len"
            using adv pos by (simp add: word_le_nat_alt)
          have rest: "calls_fit (socket sio) len (unat t + bytes_of ?S) evs"
            "r = Some 0 \<longrightarrow> unat t + bytes_of ?S + transferred evs = unat len"
            using ih adv that(2) pos by simp_all
          have "calls_fit (socket sio) len (unat t) (?S # evs)"
            using S_fits[OF that(1)] b rest(1) by (rule calls_fit_Cons)
          with rest(2) show ?thesis by (auto simp: transferred_Cons)
        qed
        ultimately show ?thesis by blast
      next
        case neg: False
        have b0: "bytes_of ?S = 0" using neg by simp
        from neg False lt Cons.prems have r: "r = Some (- 1)" and "w' = ?w1"
          by (auto simp: recv_loop_closed)
        then have "trace w' = trace w @ [?S]" by (simp add: trace_plat_recv)
        moreover have "calls_fit (socket sio) len (unat t) [?S]" if "t \<le> len"
          using S_fits[OF that] b0 that
          by (intro calls_fit_Cons) (simp_all add: calls_fit_Nil word_le_nat_alt)
        ultimately show ?thesis using r by auto
      qed
    next
      case True
      have b0: "bytes_of ?S = 0" using True by (simp add: SOCK_ERR_def)
      show ?thesis
      proof (cases "is_would_block rp")
        case wb: True
        show ?thesis
        proof (cases "maxnfails sio \<le> n + 1")
          case True
          with wb lt Cons.prems have r: "r = Some (- 1)" and "w' = ?w2"
            by (auto simp: recv_loop_would_block)
          then have "trace w' = trace w @ ?S # [?Sel]"
            by (simp add: trace_sio_select trace_plat_recv)
          moreover have "calls_fit (socket sio) len (unat t) (?S # [?Sel])" if "t \<le> len"
            using S_fits[OF that] b0 that
            by (intro calls_fit_Cons) (simp_all add: calls_fit_Nil word_le_nat_alt)
          ultimately show ?thesis using r by auto
        next
          case False
          with wb lt Cons.prems have "recv_loop E sio len t (n + 1) rps ?w2 = (r, w')"
            by (simp add: recv_loop_would_block)
          from Cons.IH[OF this] obtain evs where
            tr: "trace w' = trace ?w2 @ evs" and
            ih: "t \<le> len \<longrightarrow> (\<forall>ev\<in>set evs. within_request ev) \<longrightarrow>
              calls_fit (socket sio) len (unat t) evs
              \<and> (r = Some 0 \<longrightarrow> unat t + transferred evs = unat len)" by blast
          from tr have "trace w' = trace w @ ?S # ?Sel # evs"
            by (simp add: trace_sio_select trace_plat_recv)
          moreover have "calls_fit (socket sio) len (unat t) (?S # ?Sel # evs)"
            if "t \<le> len" "\<forall>ev\<in>set (?S # ?Sel # evs). within_request ev"
            using S_fits[OF that(1)] b0 that ih
            by (intro calls_fit_Cons) (simp_all add: word_le_nat_alt)
          moreover have "transferred (?S # ?Sel # evs) = transferred evs"
            using b0 by (simp add: transferred_Cons)
          ultimately show ?thesis using ih by auto
        qed
      next
        case False
        with True lt Cons.prems have r: "r = Some (- 1)" and "w' = ?w1"
          by (auto simp: recv_loop_error)
        then have "trace w' = trace w @ [?S]" by (simp add: trace_plat_recv)
        moreover have "calls_fit (socket sio) len (unat t) [?S]" if "t \<le> len"
          using S_fits[OF that] b0 that
          by (intro calls_fit_Cons) (simp_all add: calls_fit_Nil word_le_nat_alt)
        ultimately show ?thesis using r by auto
      qed
    qed
  qed
qed

lemma recv_loop_first_call:
  assumes "t < len"
  shows "\<exists>evs. trace (snd (recv_loop E sio len t n (rp # rps) w))
               = trace w @ Recv (socket sio) t (len - t) (fst rp) # evs"
proof -
  let ?w1 = "snd (plat_recv (socket sio) t (len - t) rp w)"
  let ?w2 = "snd (sio_select E sio SELECT_READ ?w1)"
  have ext: "\<exists>evs. trace (snd (recv_loop E sio len t' n' rps w')) = trace w' @ evs"
    for t' n' w'
    using recv_loop_trace[of E sio len t' n' rps w'] by (metis surjective_pairing)
  show ?thesis
  proof (cases "fst rp = SOCK_ERR")
    case False
    show ?thesis
    proof (cases "0 <s fst rp")
      case True
      with assms ext[of "t + fst rp" 0 ?w1] show ?thesis
        by (auto simp: recv_loop_progress trace_plat_recv)
    next
      case neg: False
      with False assms show ?thesis
        by (simp add: recv_loop_closed trace_plat_recv)
    qed
  next
    case True
    show ?thesis
    proof (cases "is_would_block rp")
      case wb: True
      with assms ext[of t "n + 1" ?w2] show ?thesis
        by (auto simp: recv_loop_would_block trace_plat_recv trace_sio_select)
    next
      case False
      with True assms show ?thesis
        by (simp add: recv_loop_error trace_plat_recv)
    qed
  qed
qed


subsection \<open>Further facts for the claims\<close>

lemma send_loop_zero:
  assumes "t < len"
  shows "fst (send_loop E sio len t n (replicate k (0, e)) w) = None"
  using assms
proof (induction k arbitrary: n w)
  case 0
  then show ?case by (simp add: send_loop_Nil)
next
  case (Suc k)
  have "fst (0 :: ssize_t, e) \<noteq> SOCK_ERR" by (simp add: SOCK_ERR_def)
  with Suc show ?case by (simp add: send_loop_progress)
qed

lemma seg_bytes_zero:
  assumes "\<forall>(wbs, p)\<in>set segs. fst p = 0"
  shows "seg_bytes segs = 0"
  using assms by (induction segs) (auto simp: seg_bytes_def)

lemma recv_loop_results:
  "fst (recv_loop E sio len t n rps w) \<in> {None, Some 0, Some (- 1)}"
proof (induction rps arbitrary: t n w)
  case Nil
  show ?case by (cases "t < len") (simp_all add: recv_loop_done recv_loop_Nil)
next
  case (Cons rp rps)
  show ?case
  proof (cases "t < len")
    case False
    then show ?thesis by (simp add: recv_loop_done)
  next
    case lt: True
    show ?thesis
    proof (cases "fst rp = SOCK_ERR")
      case True
      show ?thesis
      proof (cases "is_would_block rp")
        case wb: True
        with lt Cons.IH[of t "n + 1"] show ?thesis
          by (simp add: recv_loop_would_block)
      next
        case False
        with True lt show ?thesis by (simp add: recv_loop_error)
      qed
    next
      case False
      show ?thesis
      proof (cases "0 <s fst rp")
        case True
        with lt Cons.IH[of "t + fst rp" 0] show ?thesis
          by (simp add: recv_loop_progress)
      next
        case neg: False
        with False lt show ?thesis by (simp add: recv_loop_closed)
      qed
    qed
  qed
qed

section \<open>The claims\<close>

text \<open>
  \<^bold>\<open>C1.\<close> Let \<open>f\<close> be \<^verbatim>\<open>sio_send\<close> or \<^verbatim>\<open>sio_recv\<close>. When a call of \<open>f\<close>
  for \<open>len\<close> bytes returns 0 (success), the bytes moved by the platform calls of this
  call add up to exactly \<open>len\<close>. The platform is taken to keep to its interface: no
  \<^verbatim>\<open>send\<close> or \<^verbatim>\<open>recv\<close> of the call moves more than the count it was asked for.
\<close>

theorem sio_success_transfers_len:
  assumes "f = sio_send \<or> f = sio_recv"
    and "f E sio len rps w = (Some 0, w')"
    and "\<forall>ev\<in>set (new_events w w'). within_request ev"
  shows "transferred (new_events w w') = unat len"
proof -
  have "\<exists>evs. trace w' = trace w @ evs \<and>
          (0 \<le> len \<longrightarrow> (\<forall>ev\<in>set evs. within_request ev) \<longrightarrow>
             calls_fit (socket sio) len (unat (0 :: size_t)) evs
             \<and> (Some (0 :: int) = Some 0 \<longrightarrow> unat (0 :: size_t) + transferred evs = unat len))"
    using assms(1,2) send_loop_trace[of E sio len 0 0 rps w "Some 0" w']
      recv_loop_trace[of E sio len 0 0 rps w "Some 0" w']
    by (auto simp: sio_send_def sio_recv_def)
  then obtain evs where tr: "trace w' = trace w @ evs"
    and sum: "(\<forall>ev\<in>set evs. within_request ev) \<longrightarrow> transferred evs = unat len"
    by auto
  from new_events_append[OF tr] sum assms(3) show ?thesis by simp
qed

theorem sio_success_transfers_len_witness:
  "sio_send demo_env demo_sio 2 [(- 1, EAGAIN), (1, ENONE), (1, ENONE)] demo_world
     = (Some 0, \<lparr>trace = [Send 3 0 2 (- 1), Select 4 SELECT_WRITE 1 1, Send 3 0 2 1,
                           Send 3 1 1 1], errno = EAGAIN\<rparr>)
   \<and> list_all within_request (new_events demo_world
          \<lparr>trace = [Send 3 0 2 (- 1), Select 4 SELECT_WRITE 1 1, Send 3 0 2 1,
                    Send 3 1 1 1], errno = EAGAIN\<rparr>)
   \<and> transferred (new_events demo_world
          \<lparr>trace = [Send 3 0 2 (- 1), Select 4 SELECT_WRITE 1 1, Send 3 0 2 1,
                    Send 3 1 1 1], errno = EAGAIN\<rparr>) = unat (2 :: size_t)"
proof -
  let ?W = "\<lparr>trace = [Send 3 0 2 (- 1), Select 4 SELECT_WRITE 1 1, Send 3 0 2 1,
                       Send 3 1 1 1], errno = EAGAIN\<rparr>"
  have run: "sio_send demo_env demo_sio 2 [(- 1, EAGAIN), (1, ENONE), (1, ENONE)] demo_world
     = (Some 0, ?W)"
    by (simp add: sio_send_def send_loop.simps plat_send_def sio_select_def record_call_def
        SOCK_ERR_def demo_env_def demo_sio_def demo_world_def)
  have ok: "list_all within_request (new_events demo_world ?W)"
    by (simp add: new_events_def demo_world_def SOCK_ERR_def)
  have "sio_send = sio_send \<or> sio_send = sio_recv" by simp
  from sio_success_transfers_len[OF this run ok[unfolded list_all_iff]] run ok
  show ?thesis by (intro conjI)
qed

text \<open>
  \<^bold>\<open>C2.\<close> Let \<open>f\<close> be \<^verbatim>\<open>sio_send\<close> or \<^verbatim>\<open>sio_recv\<close>, and let the transfer be
  still running after the platform answers \<open>pre\<close>. If the next answers \<open>wbs\<close> are all
  would-block answers (nothing is transferred between them), at least one and at least
  \<open>maxnfails\<close> of them, then \<open>f\<close> returns the failure value \<open>-1\<close>, the only failure
  value the source has. It returns within \<open>wbs\<close>: what the platform would answer
  afterwards (\<open>rest\<close>) is never asked for, so the loop has ended and does not hang.
\<close>

theorem sio_transfer_budget_exhausted:
  assumes "f = sio_send \<or> f = sio_recv"
    and "fst (f E sio len pre w) = None"
    and "\<forall>rp\<in>set wbs. is_would_block rp"
    and "wbs \<noteq> []"
    and "maxnfails sio \<le> int (length wbs)"
  shows "fst (f E sio len (pre @ wbs @ rest) w) = Some (- 1)
       \<and> f E sio len (pre @ wbs @ rest) w = f E sio len (pre @ wbs) w"
  using assms(1)
proof
  assume f: "f = sio_send"
  from assms(2) f obtain t n w' where
    t: "t < len" and n: "0 \<le> n" and
    eq: "\<And>more. send_loop E sio len 0 0 (pre @ more) w = send_loop E sio len t n more w'"
    using send_loop_running[of E sio len 0 0 pre w] by (auto simp: sio_send_def)
  have "maxnfails sio \<le> n + int (length wbs)" using assms(5) n by simp
  from send_loop_exhaust[OF t assms(3,4) this, of E rest w'] eq[of "wbs @ rest"] eq[of wbs]
  show ?thesis by (simp add: f sio_send_def)
next
  assume f: "f = sio_recv"
  from assms(2) f obtain t n w' where
    t: "t < len" and n: "0 \<le> n" and
    eq: "\<And>more. recv_loop E sio len 0 0 (pre @ more) w = recv_loop E sio len t n more w'"
    using recv_loop_running[of E sio len 0 0 pre w] by (auto simp: sio_recv_def)
  have "maxnfails sio \<le> n + int (length wbs)" using assms(5) n by simp
  from recv_loop_exhaust[OF t assms(3,4) this, of E rest w'] eq[of "wbs @ rest"] eq[of wbs]
  show ?thesis by (simp add: f sio_recv_def)
qed

theorem sio_transfer_budget_exhausted_witness:
  "fst (sio_recv demo_env demo_sio 2 [(1, ENONE)] demo_world) = None
   \<and> list_all is_would_block (replicate 3 (SOCK_ERR, EAGAIN))
   \<and> replicate 3 (SOCK_ERR, EAGAIN) \<noteq> []
   \<and> maxnfails demo_sio \<le> int (length (replicate 3 (SOCK_ERR, EAGAIN)))
   \<and> fst (sio_recv demo_env demo_sio 2
        ([(1, ENONE)] @ replicate 3 (SOCK_ERR, EAGAIN) @ [(1, ENONE)]) demo_world) = Some (- 1)"
proof -
  have run: "fst (sio_recv demo_env demo_sio 2 [(1, ENONE)] demo_world) = None"
    by (simp add: sio_recv_def recv_loop.simps plat_recv_def record_call_def SOCK_ERR_def
        word_sless_alt demo_sio_def demo_world_def)
  have wbs: "list_all is_would_block (replicate 3 (SOCK_ERR, EAGAIN))"
    by (simp add: is_would_block_def list_all_iff)
  have ne: "replicate 3 (SOCK_ERR, EAGAIN) \<noteq> []" by simp
  have m: "maxnfails demo_sio \<le> int (length (replicate 3 (SOCK_ERR, EAGAIN)))"
    by (simp add: demo_sio_def)
  have "sio_recv = sio_send \<or> sio_recv = sio_recv" by simp
  from sio_transfer_budget_exhausted[OF this run wbs[unfolded list_all_iff] ne m,
      of "[(1, ENONE)]", THEN conjunct1]
  show ?thesis using run wbs ne m by (intro conjI)
qed

text \<open>
  \<^bold>\<open>C3.\<close> In both loops, a platform call that returns \<open>n > 0\<close> while bytes are
  missing continues the loop with \<open>total_bytes + n\<close> and with the failure counter at 0,
  whatever the counter was. Hence, when the platform's answers are segments of would-block
  answers, each run shorter than \<open>maxnfails\<close>, each closed by an answer of \<open>n > 0\<close>
  bytes, the transfer does not fail: it returns 0 as soon as the closing answers add up to
  \<open>len\<close>, whatever would follow; and while they add up to less, it is still running,
  also after a further run of would-block answers shorter than \<open>maxnfails\<close>. The example
  of the claim (would-block, would-block, one byte, then \<open>maxnfails - 1\<close> would-blocks)
  is such a list when \<open>maxnfails\<close> is 3; with \<open>maxnfails \<le> 2\<close> its first two
  would-blocks already reach the budget.
\<close>

theorem progress_resets_failure_count:
  "(total_bytes < len \<longrightarrow> 0 <s fst rp \<longrightarrow>
      send_loop E sio len total_bytes nfails (rp # rps) w
        = send_loop E sio len (total_bytes + fst rp) 0 rps
            (snd (plat_send (socket sio) total_bytes (len - total_bytes) rp w))
      \<and> recv_loop E sio len total_bytes nfails (rp # rps) w
        = recv_loop E sio len (total_bytes + fst rp) 0 rps
            (snd (plat_recv (socket sio) total_bytes (len - total_bytes) rp w)))
   \<and> ((\<forall>(wbs, p)\<in>set segs. (\<forall>rp\<in>set wbs. is_would_block rp)
           \<and> int (length wbs) < maxnfails sio \<and> 0 <s fst p) \<longrightarrow>
        (seg_bytes segs = unat len \<longrightarrow>
           fst (sio_send E sio len (seg_script segs @ rest) w) = Some 0
           \<and> fst (sio_recv E sio len (seg_script segs @ rest) w) = Some 0)
        \<and> (seg_bytes segs < unat len \<longrightarrow>
           (\<forall>rp\<in>set wbs. is_would_block rp) \<longrightarrow> int (length wbs) < maxnfails sio \<longrightarrow>
           fst (sio_send E sio len (seg_script segs @ wbs) w) = None
           \<and> fst (sio_recv E sio len (seg_script segs @ wbs) w) = None))"
proof (intro conjI impI)
  assume "total_bytes < len" "0 <s fst rp"
  then show "send_loop E sio len total_bytes nfails (rp # rps) w
        = send_loop E sio len (total_bytes + fst rp) 0 rps
            (snd (plat_send (socket sio) total_bytes (len - total_bytes) rp w))"
    by (simp add: send_loop_progress sint_pos_unat(1))
next
  assume "total_bytes < len" "0 <s fst rp"
  then show "recv_loop E sio len total_bytes nfails (rp # rps) w
        = recv_loop E sio len (total_bytes + fst rp) 0 rps
            (snd (plat_recv (socket sio) total_bytes (len - total_bytes) rp w))"
    by (simp add: recv_loop_progress)
next
  assume segs: "\<forall>(wbs, p)\<in>set segs. (\<forall>rp\<in>set wbs. is_would_block rp)
           \<and> int (length wbs) < maxnfails sio \<and> 0 <s fst p"
    and sum: "seg_bytes segs = unat len"
  from segs have "\<forall>(wbs, p)\<in>set segs. (\<forall>rp\<in>set wbs. is_would_block rp)
           \<and> int (length wbs) < maxnfails sio \<and> fst p \<noteq> SOCK_ERR"
    using sint_pos_unat(1) by fastforce
  with sum show "fst (sio_send E sio len (seg_script segs @ rest) w) = Some 0"
    using send_loop_segs_done[of 0 segs len sio E rest w] by (simp add: sio_send_def)
next
  assume segs: "\<forall>(wbs, p)\<in>set segs. (\<forall>rp\<in>set wbs. is_would_block rp)
           \<and> int (length wbs) < maxnfails sio \<and> 0 <s fst p"
    and sum: "seg_bytes segs = unat len"
  then show "fst (sio_recv E sio len (seg_script segs @ rest) w) = Some 0"
    using recv_loop_segs_done[of 0 segs len sio E rest w] by (simp add: sio_recv_def)
next
  assume segs: "\<forall>(wbs, p)\<in>set segs. (\<forall>rp\<in>set wbs. is_would_block rp)
           \<and> int (length wbs) < maxnfails sio \<and> 0 <s fst p"
    and sum: "seg_bytes segs < unat len"
    and wbs: "\<forall>rp\<in>set wbs. is_would_block rp" "int (length wbs) < maxnfails sio"
  from segs have "\<forall>(wbs, p)\<in>set segs. (\<forall>rp\<in>set wbs. is_would_block rp)
           \<and> int (length wbs) < maxnfails sio \<and> fst p \<noteq> SOCK_ERR"
    using sint_pos_unat(1) by fastforce
  with sum wbs show "fst (sio_send E sio len (seg_script segs @ wbs) w) = None"
    using send_loop_segs_running[of 0 segs len sio wbs E w] by (simp add: sio_send_def)
next
  assume segs: "\<forall>(wbs, p)\<in>set segs. (\<forall>rp\<in>set wbs. is_would_block rp)
           \<and> int (length wbs) < maxnfails sio \<and> 0 <s fst p"
    and sum: "seg_bytes segs < unat len"
    and wbs: "\<forall>rp\<in>set wbs. is_would_block rp" "int (length wbs) < maxnfails sio"
  then show "fst (sio_recv E sio len (seg_script segs @ wbs) w) = None"
    using recv_loop_segs_running[of 0 segs len sio wbs E w] by (simp add: sio_recv_def)
qed

theorem progress_resets_failure_count_witness:
  "list_all (\<lambda>(wbs, p). list_all is_would_block wbs
        \<and> int (length wbs) < maxnfails demo_sio \<and> 0 <s fst p)
     [(replicate 2 (SOCK_ERR, EAGAIN), (1 :: ssize_t, ENONE))]
   \<and> seg_bytes [(replicate 2 (SOCK_ERR, EAGAIN), (1, ENONE))] < unat (2 :: size_t)
   \<and> list_all is_would_block (replicate 2 (SOCK_ERR, EAGAIN))
   \<and> int (length (replicate 2 (SOCK_ERR, EAGAIN))) < maxnfails demo_sio
   \<and> seg_script [(replicate 2 (SOCK_ERR, EAGAIN), (1, ENONE))] @ replicate 2 (SOCK_ERR, EAGAIN)
       = [(SOCK_ERR, EAGAIN), (SOCK_ERR, EAGAIN), (1, ENONE),
          (SOCK_ERR, EAGAIN), (SOCK_ERR, EAGAIN)]
   \<and> fst (sio_send demo_env demo_sio 2
        (seg_script [(replicate 2 (SOCK_ERR, EAGAIN), (1, ENONE))]
           @ replicate 2 (SOCK_ERR, EAGAIN)) demo_world) = None
   \<and> list_all (\<lambda>(wbs, p). list_all is_would_block wbs
        \<and> int (length wbs) < maxnfails demo_sio \<and> 0 <s fst p)
     [(replicate 2 (SOCK_ERR, EAGAIN), (1 :: ssize_t, ENONE)),
      (replicate 2 (SOCK_ERR, EAGAIN), (1, ENONE))]
   \<and> seg_bytes [(replicate 2 (SOCK_ERR, EAGAIN), (1, ENONE)),
                 (replicate 2 (SOCK_ERR, EAGAIN), (1, ENONE))] = unat (2 :: size_t)
   \<and> fst (sio_send demo_env demo_sio 2
        (seg_script [(replicate 2 (SOCK_ERR, EAGAIN), (1, ENONE)),
                     (replicate 2 (SOCK_ERR, EAGAIN), (1, ENONE))] @ []) demo_world) = Some 0
   \<and> fst (sio_recv demo_env demo_sio 2
        (seg_script [(replicate 2 (SOCK_ERR, EAGAIN), (1, ENONE)),
                     (replicate 2 (SOCK_ERR, EAGAIN), (1, ENONE))] @ []) demo_world) = Some 0"
proof -
  let ?wbs = "replicate 2 (SOCK_ERR, EAGAIN)"
  let ?seg = "(?wbs, (1 :: ssize_t, ENONE))"
  have one: "list_all (\<lambda>(wbs, p). list_all is_would_block wbs
        \<and> int (length wbs) < maxnfails demo_sio \<and> 0 <s fst p) [?seg]"
    by (simp add: is_would_block_def demo_sio_def word_sless_alt numeral_2_eq_2)
  have two: "list_all (\<lambda>(wbs, p). list_all is_would_block wbs
        \<and> int (length wbs) < maxnfails demo_sio \<and> 0 <s fst p) [?seg, ?seg]"
    by (simp add: is_would_block_def demo_sio_def word_sless_alt numeral_2_eq_2)
  have less: "seg_bytes [?seg] < unat (2 :: size_t)"
    by (simp add: seg_bytes_def)
  have sum: "seg_bytes [?seg, ?seg] = unat (2 :: size_t)"
    by (simp add: seg_bytes_def)
  have wbs: "list_all is_would_block ?wbs"
    by (simp add: is_would_block_def numeral_2_eq_2)
  have k: "int (length ?wbs) < maxnfails demo_sio"
    by (simp add: demo_sio_def)
  have scr: "seg_script [?seg] @ ?wbs = [(SOCK_ERR, EAGAIN), (SOCK_ERR, EAGAIN), (1, ENONE),
          (SOCK_ERR, EAGAIN), (SOCK_ERR, EAGAIN)]"
    by (simp add: seg_script_def numeral_2_eq_2)
  have hyp1: "\<forall>(wbs, p)\<in>set [?seg]. (\<forall>rp\<in>set wbs. is_would_block rp)
        \<and> int (length wbs) < maxnfails demo_sio \<and> 0 <s fst p"
    using one by (simp add: list_all_iff)
  have hyp2: "\<forall>(wbs, p)\<in>set [?seg, ?seg]. (\<forall>rp\<in>set wbs. is_would_block rp)
        \<and> int (length wbs) < maxnfails demo_sio \<and> 0 <s fst p"
    using two by (simp add: list_all_iff)
  note running = progress_resets_failure_count[where segs = "[?seg]" and sio = demo_sio
      and len = 2 and E = demo_env and w = demo_world and wbs = ?wbs,
      THEN conjunct2, THEN mp, OF hyp1, THEN conjunct2, THEN mp, THEN mp, THEN mp,
      OF less wbs[unfolded list_all_iff] k, THEN conjunct1]
  note fin = progress_resets_failure_count[where segs = "[?seg, ?seg]" and sio = demo_sio
      and len = 2 and E = demo_env and w = demo_world and rest = "[]",
      THEN conjunct2, THEN mp, OF hyp2, THEN conjunct1, THEN mp, OF sum]
  show ?thesis
    using one less wbs k scr running two sum fin[THEN conjunct1] fin[THEN conjunct2]
    by (intro conjI)
qed

text \<open>
  \<^bold>\<open>C4.\<close> \<^verbatim>\<open>EINPROGRESS\<close> is what a non-blocking \<^verbatim>\<open>connect\<close> reports on
  Linux while the handshake is under way, and it is the indication that the
  \<^verbatim>\<open>__linux__\<close> branch tests (the would-block code is its counterpart in the
  \<^verbatim>\<open>_WIN32\<close> branch). When \<^verbatim>\<open>connect\<close> fails with it, \<^verbatim>\<open>sio_connect\<close>
  makes exactly one readiness wait: one \<^verbatim>\<open>select\<close> for writing on the socket with the timeout
  \<open>sio->timeout\<close>. It reads the pending socket error only when that \<^verbatim>\<open>select\<close>
  returned 1, and it returns 0 (success) if and only if the \<^verbatim>\<open>select\<close> returned 1 and
  the pending error read is 0; otherwise it returns \<open>-1\<close>. The function has no loop.
\<close>

theorem sio_connect_in_progress_one_wait:
  assumes "connect_reply E = (SOCK_ERROR, EINPROGRESS)"
  shows "new_events w (snd (sio_connect E sio host port w)) =
           [Inet_pton host (fst (inet_pton_reply E host)),
            Connect AF_INET port
              (if fst (inet_pton_reply E host) = 1 then snd (inet_pton_reply E host) else 0)
              SOCK_ERROR,
            Select (socket sio + 1) SELECT_WRITE (timeout sio)
              (fst (select_reply E (length (trace w) + 2)))]
           @ (if fst (select_reply E (length (trace w) + 2)) = 1
              then [Getsockopt_SO_ERROR (socket sio) (so_error E)] else [])
       \<and> (fst (sio_connect E sio host port w) = 0
            \<longleftrightarrow> fst (select_reply E (length (trace w) + 2)) = 1 \<and> so_error E = 0)
       \<and> fst (sio_connect E sio host port w) \<in> {0, - 1}"
proof -
  obtain pr a where p: "inet_pton_reply E host = (pr, a)"
    by (cases "inet_pton_reply E host")
  obtain sr se where sel: "select_reply E (length (trace w) + 2) = (sr, se)"
    by (cases "select_reply E (length (trace w) + 2)")
  show ?thesis
    using assms p sel
    by (simp add: sio_connect_def is_connected_def sio_select_def record_call_def Let_def
        new_events_def SOCK_ERROR_def)
qed

theorem sio_connect_in_progress_one_wait_witness:
  "connect_reply demo_env = (SOCK_ERROR, EINPROGRESS)
   \<and> sio_connect demo_env demo_sio ''10.0.0.1'' 80 demo_world
       = (0, \<lparr>trace = [Inet_pton ''10.0.0.1'' 1, Connect 2 80 167772161 (- 1),
                       Select 4 SELECT_WRITE 1 1, Getsockopt_SO_ERROR 3 0],
              errno = EINPROGRESS\<rparr>)
   \<and> fst (sio_connect (demo_env\<lparr>select_reply := (\<lambda>n. (0, ENONE))\<rparr>) demo_sio
            ''10.0.0.1'' 80 demo_world) = - 1
   \<and> fst (sio_connect (demo_env\<lparr>so_error := 111\<rparr>) demo_sio ''10.0.0.1'' 80 demo_world) = - 1"
proof -
  have h: "connect_reply demo_env = (SOCK_ERROR, EINPROGRESS)"
    by (simp add: demo_env_def SOCK_ERROR_def)
  have h0: "connect_reply (demo_env\<lparr>select_reply := (\<lambda>n. (0, ENONE))\<rparr>)
             = (SOCK_ERROR, EINPROGRESS)"
    by (simp add: demo_env_def SOCK_ERROR_def)
  have h1: "connect_reply (demo_env\<lparr>so_error := 111\<rparr>) = (SOCK_ERROR, EINPROGRESS)"
    by (simp add: demo_env_def SOCK_ERROR_def)
  have run: "sio_connect demo_env demo_sio ''10.0.0.1'' 80 demo_world
       = (0, \<lparr>trace = [Inet_pton ''10.0.0.1'' 1, Connect 2 80 167772161 (- 1),
                       Select 4 SELECT_WRITE 1 1, Getsockopt_SO_ERROR 3 0],
              errno = EINPROGRESS\<rparr>)"
    by (simp add: sio_connect_def is_connected_def sio_select_def record_call_def
        demo_env_def demo_sio_def demo_world_def SOCK_ERROR_def AF_INET_def)
  note t0 = sio_connect_in_progress_one_wait[OF h0, of demo_world demo_sio "''10.0.0.1''" 80]
  note t1 = sio_connect_in_progress_one_wait[OF h1, of demo_world demo_sio "''10.0.0.1''" 80]
  have a: "fst (sio_connect (demo_env\<lparr>select_reply := (\<lambda>n. (0, ENONE))\<rparr>) demo_sio
            ''10.0.0.1'' 80 demo_world) = - 1"
    using t0[THEN conjunct2, THEN conjunct1] t0[THEN conjunct2, THEN conjunct2] by auto
  have b: "fst (sio_connect (demo_env\<lparr>so_error := 111\<rparr>) demo_sio
            ''10.0.0.1'' 80 demo_world) = - 1"
    using t1[THEN conjunct2, THEN conjunct1] t1[THEN conjunct2, THEN conjunct2] by auto
  show ?thesis using h run a b by (intro conjI)
qed

text \<open>
  \<^bold>\<open>C5.\<close> As stated, the claim fails: \<^verbatim>\<open>sio_connect\<close> never looks at the value of
  \<^verbatim>\<open>inet_pton\<close>. On a platform where the host string does not parse
  (\<^verbatim>\<open>inet_pton\<close> returns 0) and \<^verbatim>\<open>connect\<close> succeeds, \<^verbatim>\<open>sio_connect\<close> makes the
  \<^verbatim>\<open>connect\<close> call, to the zeroed address, and returns 0.
\<close>

theorem sio_connect_unparsed_host_connects:
  "fst (inet_pton_reply (demo_env\<lparr>connect_reply := (0, ENONE)\<rparr>) ''not-an-address'') = 0
   \<and> sio_connect (demo_env\<lparr>connect_reply := (0, ENONE)\<rparr>) demo_sio ''not-an-address'' 80
        demo_world
       = (0, \<lparr>trace = [Inet_pton ''not-an-address'' 0, Connect AF_INET 80 0 0],
              errno = ENONE\<rparr>)"
  by (simp add: sio_connect_def record_call_def demo_env_def demo_sio_def demo_world_def
      SOCK_ERROR_def)

text \<open>
  \<^bold>\<open>C5, amended.\<close> For every host string, whether it parses or not,
  \<^verbatim>\<open>sio_connect\<close> calls \<^verbatim>\<open>inet_pton\<close> and then makes the \<^verbatim>\<open>connect\<close> attempt
  (to the address 0 when nothing was parsed); the value it returns does not depend on the
  outcome of the parse, only on the \<^verbatim>\<open>connect\<close> attempt and, for a handshake in
  progress, on the readiness wait.
\<close>

theorem sio_connect_ignores_parse_result:
  "(\<exists>evs. new_events w (snd (sio_connect E sio host port w)) =
           Inet_pton host (fst (inet_pton_reply E host))
           # Connect AF_INET port
               (if fst (inet_pton_reply E host) = 1 then snd (inet_pton_reply E host) else 0)
               (fst (connect_reply E))
           # evs)
   \<and> fst (sio_connect (E\<lparr>inet_pton_reply := pr\<rparr>) sio host port w)
       = fst (sio_connect E sio host port w)"
proof -
  obtain p a where p: "inet_pton_reply E host = (p, a)"
    by (cases "inet_pton_reply E host")
  obtain res e where c: "connect_reply E = (res, e)"
    by (cases "connect_reply E")
  obtain sr se where sel: "select_reply E (length (trace w) + 2) = (sr, se)"
    by (cases "select_reply E (length (trace w) + 2)")
  obtain p' a' where p': "pr host = (p', a')"
    by (cases "pr host")
  show ?thesis
    using p p' c sel
    by (simp add: sio_connect_def is_connected_def sio_select_def record_call_def Let_def
        new_events_def)
qed

text \<open>
  \<^bold>\<open>C6.\<close> As stated, the claim fails: \<^verbatim>\<open>sio_recv\<close> has one failure value. With a
  budget of two failures, a would-block followed by a read of zero bytes (the peer closed),
  two would-blocks (budget exhausted) and a would-block followed by a connection reset all
  return \<open>-1\<close>; in the first two runs \<^verbatim>\<open>errno\<close> is the same as well.
\<close>

theorem sio_recv_failures_same_result:
  "fst (sio_recv demo_env (demo_sio\<lparr>maxnfails := 2\<rparr>) 1
          [(- 1, EAGAIN), (0, ENONE)] demo_world) = Some (- 1)
   \<and> fst (sio_recv demo_env (demo_sio\<lparr>maxnfails := 2\<rparr>) 1
          [(- 1, EAGAIN), (- 1, EAGAIN)] demo_world) = Some (- 1)
   \<and> fst (sio_recv demo_env (demo_sio\<lparr>maxnfails := 2\<rparr>) 1
          [(- 1, EAGAIN), (- 1, ECONNRESET)] demo_world) = Some (- 1)
   \<and> errno (snd (sio_recv demo_env (demo_sio\<lparr>maxnfails := 2\<rparr>) 1
          [(- 1, EAGAIN), (0, ENONE)] demo_world))
     = errno (snd (sio_recv demo_env (demo_sio\<lparr>maxnfails := 2\<rparr>) 1
          [(- 1, EAGAIN), (- 1, EAGAIN)] demo_world))"
  by (simp add: sio_recv_def recv_loop.simps plat_recv_def sio_select_def record_call_def
      SOCK_ERR_def word_sless_alt demo_env_def demo_sio_def demo_world_def)

text \<open>
  \<^bold>\<open>C6, amended.\<close> In \<^verbatim>\<open>sio_recv\<close>, a platform read that returns zero bytes while
  bytes are missing ends the operation at once with \<open>-1\<close>, after that one
  \<^verbatim>\<open>recv\<close> and without a readiness wait; \<open>-1\<close> is also the only value
  \<^verbatim>\<open>sio_recv\<close> returns for any other failure (the only values it returns are 0 and
  \<open>-1\<close>), so the result does not tell a closed peer from the other failures.
\<close>

theorem sio_recv_zero_read_terminal:
  "(total_bytes < len \<longrightarrow>
      recv_loop E sio len total_bytes nfails ((0, e) # rps) w
        = (Some (- 1), snd (plat_recv (socket sio) total_bytes (len - total_bytes) (0, e) w))
      \<and> new_events w (snd (recv_loop E sio len total_bytes nfails ((0, e) # rps) w))
        = [Recv (socket sio) total_bytes (len - total_bytes) 0])
   \<and> fst (sio_recv E sio len rps w) \<in> {None, Some 0, Some (- 1)}"
proof (intro conjI impI)
  assume lt: "total_bytes < len"
  have z: "fst (0 :: ssize_t, e) \<noteq> SOCK_ERR" "\<not> 0 <s fst (0 :: ssize_t, e)"
    by (simp_all add: SOCK_ERR_def)
  from recv_loop_closed[OF lt z]
  show eq: "recv_loop E sio len total_bytes nfails ((0, e) # rps) w
        = (Some (- 1), snd (plat_recv (socket sio) total_bytes (len - total_bytes) (0, e) w))" .
  show "new_events w (snd (recv_loop E sio len total_bytes nfails ((0, e) # rps) w))
        = [Recv (socket sio) total_bytes (len - total_bytes) 0]"
    by (simp add: eq new_events_def trace_plat_recv)
next
  show "fst (sio_recv E sio len rps w) \<in> {None, Some 0, Some (- 1)}"
    unfolding sio_recv_def by (rule recv_loop_results)
qed

theorem sio_recv_zero_read_terminal_witness:
  "(0 :: size_t) < 10
   \<and> recv_loop demo_env demo_sio 10 0 0 [(5, ENONE), (0, ENONE), (5, ENONE)] demo_world
       = (Some (- 1), \<lparr>trace = [Recv 3 0 10 5, Recv 3 5 5 0], errno = ENONE\<rparr>)
   \<and> (5 :: size_t) < 10
   \<and> recv_loop demo_env demo_sio 10 5 0 [(0, ENONE), (5, ENONE)]
        \<lparr>trace = [Recv 3 0 10 5], errno = ENONE\<rparr>
       = (Some (- 1), \<lparr>trace = [Recv 3 0 10 5, Recv 3 5 5 0], errno = ENONE\<rparr>)"
proof -
  have lt: "(5 :: size_t) < 10" by simp
  from sio_recv_zero_read_terminal[where total_bytes = 5 and len = 10 and E = demo_env
      and sio = demo_sio and nfails = 0 and e = ENONE and rps = "[(5, ENONE)]"
      and w = "\<lparr>trace = [Recv 3 0 10 5], errno = ENONE\<rparr>",
      THEN conjunct1, rule_format, OF lt, THEN conjunct1]
  have "recv_loop demo_env demo_sio 10 5 0 [(0, ENONE), (5, ENONE)]
        \<lparr>trace = [Recv 3 0 10 5], errno = ENONE\<rparr>
       = (Some (- 1), \<lparr>trace = [Recv 3 0 10 5, Recv 3 5 5 0], errno = ENONE\<rparr>)"
    by (simp add: plat_recv_def record_call_def demo_sio_def)
  moreover have "recv_loop demo_env demo_sio 10 0 0 [(5, ENONE), (0, ENONE), (5, ENONE)]
        demo_world
       = (Some (- 1), \<lparr>trace = [Recv 3 0 10 5, Recv 3 5 5 0], errno = ENONE\<rparr>)"
    by (simp add: recv_loop.simps plat_recv_def record_call_def SOCK_ERR_def word_sless_alt
        demo_sio_def demo_world_def)
  ultimately show ?thesis by simp
qed

text \<open>
  \<^bold>\<open>C7.\<close> \<^verbatim>\<open>sio_close\<close> returns \<^verbatim>\<open>void\<close>: for every Connection, every world
  and every answer of the platform (also a failing \<^verbatim>\<open>close\<close>) it yields a Connection,
  which is the old one with the handle set to the sentinel \<open>INV_SOCK\<close>. Closing again,
  in any later world, yields the same Connection: \<^verbatim>\<open>sio_close\<close> is idempotent on the
  Connection, and a Connection whose handle is the sentinel already (closed, or never
  opened) is left as it is. The only platform call of \<^verbatim>\<open>sio_close\<close> is one
  \<^verbatim>\<open>close\<close> on the handle it finds, so the second \<^verbatim>\<open>close\<close> is made on the
  sentinel and on no descriptor.
\<close>

theorem sio_close_resets_handle:
  "socket (fst (sio_close E sio w)) = INV_SOCK
   \<and> fst (sio_close E sio w) = sio\<lparr>socket := INV_SOCK\<rparr>
   \<and> fst (sio_close E' (fst (sio_close E sio w)) w') = fst (sio_close E sio w)
   \<and> fst (sio_close E (sio\<lparr>socket := INV_SOCK\<rparr>) w) = sio\<lparr>socket := INV_SOCK\<rparr>
   \<and> new_events w (snd (sio_close E sio w))
       = [Close (socket sio) (fst (close_reply E (length (trace w))))]
   \<and> new_events w' (snd (sio_close E' (fst (sio_close E sio w)) w'))
       = [Close INV_SOCK (fst (close_reply E' (length (trace w'))))]"
  by (simp add: sio_close_def new_events_def trace_record_call split: prod.splits)

text \<open>
  \<^bold>\<open>C8.\<close> \<^verbatim>\<open>sio_send\<close> with \<open>len = 0\<close> returns 0 and leaves the world as it
  found it: no event is added to the trace (no \<^verbatim>\<open>send\<close>, no \<^verbatim>\<open>select\<close>) and
  \<^verbatim>\<open>errno\<close> is untouched, whatever the platform would have answered (\<open>rps\<close> is
  arbitrary, also empty). The loop body is not entered: the result does not depend on
  \<open>rps\<close>. \<^verbatim>\<open>sio_send\<close> never assigns through \<^verbatim>\<open>sio\<close>, which is why the model
  of \<^verbatim>\<open>sio_send\<close> returns no Connection.
\<close>

theorem sio_send_zero_length:
  "sio_send E sio 0 rps w = (Some 0, w)"
  by (simp add: sio_send_def send_loop_done)

text \<open>
  \<^bold>\<open>C9.\<close> Every iteration of either loop makes its transfer call on \<open>sio->socket\<close>
  at offset \<open>total_bytes\<close> for \<open>len - total_bytes\<close> bytes: that call is the first event
  an iteration adds. Let \<open>f\<close> be \<^verbatim>\<open>sio_send\<close> or \<^verbatim>\<open>sio_recv\<close> and let no transfer
  call of the run move more than the count it was asked for. Then for every event \<open>ev\<close>
  of the run, with \<open>pre\<close> the events before it: if \<open>ev\<close> is a transfer call, its offset
  is the number of bytes moved before it, its count is \<open>len\<close> minus the offset, and offset
  plus count is \<open>len\<close>, so the bytes it touches lie inside the \<open>len\<close> bytes of the
  caller; and the bytes moved up to and including \<open>ev\<close> are at most \<open>len\<close>.
\<close>

theorem transfer_calls_stay_in_buffer:
  "(total_bytes < len \<longrightarrow>
      (\<exists>evs. new_events w (snd (send_loop E sio len total_bytes nfails (rp # rps) w))
              = Send (socket sio) total_bytes (len - total_bytes) (fst rp) # evs)
      \<and> (\<exists>evs. new_events w (snd (recv_loop E sio len total_bytes nfails (rp # rps) w))
              = Recv (socket sio) total_bytes (len - total_bytes) (fst rp) # evs))
   \<and> ((f = sio_send \<or> f = sio_recv) \<longrightarrow>
        f E sio len rps w = (r, w') \<longrightarrow>
        (\<forall>ev\<in>set (new_events w w'). within_request ev) \<longrightarrow>
        new_events w w' = pre @ ev # post \<longrightarrow>
        call_fits (socket sio) len (transferred pre) ev
        \<and> transferred (pre @ [ev]) \<le> unat len)"
proof (intro conjI impI)
  assume lt: "total_bytes < len"
  from send_loop_first_call[OF lt, of E sio nfails rp rps w]
  show "\<exists>evs. new_events w (snd (send_loop E sio len total_bytes nfails (rp # rps) w))
              = Send (socket sio) total_bytes (len - total_bytes) (fst rp) # evs"
    by (auto simp: new_events_def)
  from recv_loop_first_call[OF lt, of E sio nfails rp rps w]
  show "\<exists>evs. new_events w (snd (recv_loop E sio len total_bytes nfails (rp # rps) w))
              = Recv (socket sio) total_bytes (len - total_bytes) (fst rp) # evs"
    by (auto simp: new_events_def)
next
  assume f: "f = sio_send \<or> f = sio_recv"
    and run: "f E sio len rps w = (r, w')"
    and ok: "\<forall>ev\<in>set (new_events w w'). within_request ev"
    and split: "new_events w w' = pre @ ev # post"
  have "\<exists>evs. trace w' = trace w @ evs \<and>
          (0 \<le> len \<longrightarrow> (\<forall>ev\<in>set evs. within_request ev) \<longrightarrow>
             calls_fit (socket sio) len (unat (0 :: size_t)) evs
             \<and> (r = Some 0 \<longrightarrow> unat (0 :: size_t) + transferred evs = unat len))"
    using f run send_loop_trace[of E sio len 0 0 rps w r w']
      recv_loop_trace[of E sio len 0 0 rps w r w']
    by (auto simp: sio_send_def sio_recv_def)
  then obtain evs where tr: "trace w' = trace w @ evs"
    and fit: "(\<forall>ev\<in>set evs. within_request ev) \<longrightarrow> calls_fit (socket sio) len 0 evs"
    by auto
  from new_events_append[OF tr] ok fit have "calls_fit (socket sio) len 0 (new_events w w')"
    by simp
  with split
  have both: "call_fits (socket sio) len (transferred pre) ev
      \<and> transferred (pre @ [ev]) \<le> unat len"
    using calls_fit_split[of "socket sio" len 0 pre ev post] by simp
  from both show "call_fits (socket sio) len (transferred pre) ev" ..
  from both show "transferred (pre @ [ev]) \<le> unat len" ..
qed

theorem transfer_calls_stay_in_buffer_witness:
  "sio_recv demo_env demo_sio 10 [(4, ENONE), (- 1, EAGAIN), (6, ENONE)] demo_world
     = (Some 0, \<lparr>trace = [Recv 3 0 10 4, Recv 3 4 6 (- 1), Select 4 SELECT_READ 1 1,
                           Recv 3 4 6 6], errno = EAGAIN\<rparr>)
   \<and> list_all within_request
        [Recv 3 0 10 4, Recv 3 4 6 (- 1), Select 4 SELECT_READ 1 1, Recv 3 4 6 6]
   \<and> call_fits (socket demo_sio) 10
        (transferred [Recv 3 0 10 4, Recv 3 4 6 (- 1), Select 4 SELECT_READ 1 1])
        (Recv 3 4 6 6)
   \<and> transferred ([Recv 3 0 10 4, Recv 3 4 6 (- 1), Select 4 SELECT_READ 1 1]
          @ [Recv 3 4 6 6]) \<le> unat (10 :: size_t)"
proof -
  let ?W = "\<lparr>trace = [Recv 3 0 10 4, Recv 3 4 6 (- 1), Select 4 SELECT_READ 1 1,
                       Recv 3 4 6 6], errno = EAGAIN\<rparr>"
  have run: "sio_recv demo_env demo_sio 10 [(4, ENONE), (- 1, EAGAIN), (6, ENONE)] demo_world
     = (Some 0, ?W)"
    by (simp add: sio_recv_def recv_loop.simps plat_recv_def sio_select_def record_call_def
        SOCK_ERR_def word_sless_alt demo_env_def demo_sio_def demo_world_def)
  have new: "new_events demo_world ?W
      = [Recv 3 0 10 4, Recv 3 4 6 (- 1), Select 4 SELECT_READ 1 1] @ Recv 3 4 6 6 # []"
    by (simp add: new_events_def demo_world_def)
  have ok: "list_all within_request
        [Recv 3 0 10 4, Recv 3 4 6 (- 1), Select 4 SELECT_READ 1 1, Recv 3 4 6 6]"
    by (simp add: SOCK_ERR_def)
  have ok': "\<forall>ev\<in>set (new_events demo_world ?W). within_request ev"
    using ok by (simp add: new_events_def demo_world_def)
  have f: "sio_recv = sio_send \<or> sio_recv = sio_recv" by simp
  note c = transfer_calls_stay_in_buffer[where f = sio_recv, THEN conjunct2, THEN mp, THEN mp,
      THEN mp, THEN mp, OF f run ok' new]
  show ?thesis using run ok c[THEN conjunct1] c[THEN conjunct2] by (intro conjI)
qed

text \<open>
  \<^bold>\<open>C10.\<close> While bytes are missing, a \<^verbatim>\<open>send\<close> that returns 0 continues the loop of
  \<^verbatim>\<open>sio_send\<close> with the same \<open>total_bytes\<close> and with the failure counter at 0,
  whatever the counter was; the same answer ends \<^verbatim>\<open>sio_recv\<close> with \<open>-1\<close>. So
  \<^verbatim>\<open>sio_send\<close> does not return when the platform keeps answering 0: after any number
  \<open>k\<close> of such answers the loop is still running. The same holds when each answer of 0
  is preceded by a run of would-block answers shorter than \<open>maxnfails\<close>: the budget is never
  used up, because every answer of 0 resets the counter.
\<close>

theorem zero_byte_send_is_progress:
  "(total_bytes < len \<longrightarrow>
      send_loop E sio len total_bytes nfails ((0, e) # rps) w
        = send_loop E sio len total_bytes 0 rps
            (snd (plat_send (socket sio) total_bytes (len - total_bytes) (0, e) w))
      \<and> recv_loop E sio len total_bytes nfails ((0, e) # rps) w
        = (Some (- 1), snd (plat_recv (socket sio) total_bytes (len - total_bytes) (0, e) w)))
   \<and> (0 < len \<longrightarrow> fst (sio_send E sio len (replicate k (0, e)) w) = None)
   \<and> (0 < len \<longrightarrow>
        (\<forall>(wbs, p)\<in>set segs. (\<forall>rp\<in>set wbs. is_would_block rp)
           \<and> int (length wbs) < maxnfails sio \<and> fst p = 0) \<longrightarrow>
        fst (sio_send E sio len (seg_script segs) w) = None)"
proof (intro conjI impI)
  assume lt: "total_bytes < len"
  have z: "fst (0 :: ssize_t, e) \<noteq> SOCK_ERR" "\<not> 0 <s fst (0 :: ssize_t, e)"
    by (simp_all add: SOCK_ERR_def)
  from send_loop_progress[OF lt z(1), of E sio nfails rps w]
  show "send_loop E sio len total_bytes nfails ((0, e) # rps) w
        = send_loop E sio len total_bytes 0 rps
            (snd (plat_send (socket sio) total_bytes (len - total_bytes) (0, e) w))"
    by simp
  from recv_loop_closed[OF lt z]
  show "recv_loop E sio len total_bytes nfails ((0, e) # rps) w
        = (Some (- 1), snd (plat_recv (socket sio) total_bytes (len - total_bytes) (0, e) w))" .
next
  assume "0 < len"
  then show "fst (sio_send E sio len (replicate k (0, e)) w) = None"
    by (simp add: sio_send_def send_loop_zero)
next
  assume pos: "0 < len"
    and segs: "\<forall>(wbs, p)\<in>set segs. (\<forall>rp\<in>set wbs. is_would_block rp)
           \<and> int (length wbs) < maxnfails sio \<and> fst p = 0"
  from segs have zero: "seg_bytes segs = 0"
    by (intro seg_bytes_zero) auto
  from segs have ok: "\<forall>(wbs, p)\<in>set segs. (\<forall>rp\<in>set wbs. is_would_block rp)
           \<and> int (length wbs) < maxnfails sio \<and> fst p \<noteq> SOCK_ERR"
    by (auto simp: SOCK_ERR_def)
  have "unat len \<noteq> 0" using pos by (simp add: unat_eq_zero)
  then have "unat (0 :: size_t) + seg_bytes segs < unat len" using zero by simp
  from send_loop_segs_through[OF this ok, of E w] obtain t' w' where
    t': "unat t' = unat (0 :: size_t) + seg_bytes segs" and
    thr: "\<And>rest. send_loop E sio len 0 0 (seg_script segs @ rest) w
               = send_loop E sio len t' 0 rest w'" by blast
  have "t' < len" using t' zero pos by (simp add: word_less_nat_alt)
  with thr[of "[]"] show "fst (sio_send E sio len (seg_script segs) w) = None"
    by (simp add: sio_send_def send_loop_Nil)
qed

theorem zero_byte_send_is_progress_witness:
  "(0 :: size_t) < 1
   \<and> fst (sio_send demo_env demo_sio 1 (replicate 4 (0, ENONE)) demo_world) = None
   \<and> list_all (\<lambda>(wbs, p). list_all is_would_block wbs
        \<and> int (length wbs) < maxnfails demo_sio \<and> fst p = 0)
       (replicate 5 (replicate 2 (SOCK_ERR, EAGAIN), (0 :: ssize_t, ENONE)))
   \<and> fst (sio_send demo_env demo_sio 1
        (seg_script (replicate 5 (replicate 2 (SOCK_ERR, EAGAIN), (0, ENONE)))) demo_world) = None
   \<and> fst (sio_recv demo_env demo_sio 1 (replicate 4 (0, ENONE)) demo_world) = Some (- 1)"
proof -
  have lt: "(0 :: size_t) < 1" by simp
  have segs: "list_all (\<lambda>(wbs, p). list_all is_would_block wbs
        \<and> int (length wbs) < maxnfails demo_sio \<and> fst p = 0)
       (replicate 5 (replicate 2 (SOCK_ERR, EAGAIN), (0 :: ssize_t, ENONE)))"
    by (simp add: list_all_iff is_would_block_def demo_sio_def)
  have hyp: "\<forall>(wbs, p)\<in>set (replicate 5 (replicate 2 (SOCK_ERR, EAGAIN), (0 :: ssize_t, ENONE))).
        (\<forall>rp\<in>set wbs. is_would_block rp) \<and> int (length wbs) < maxnfails demo_sio \<and> fst p = 0"
    using segs by (simp add: list_all_iff)
  note c = zero_byte_send_is_progress[where len = 1 and E = demo_env and sio = demo_sio
      and w = demo_world and e = ENONE and k = 4
      and segs = "replicate 5 (replicate 2 (SOCK_ERR, EAGAIN), (0, ENONE))"
      and total_bytes = 0 and nfails = 0 and rps = "replicate 3 (0, ENONE)"]
  note c1 = c[THEN conjunct1, THEN mp, OF lt, THEN conjunct2]
  note c2 = c[THEN conjunct2, THEN conjunct1, THEN mp, OF lt]
  note c3 = c[THEN conjunct2, THEN conjunct2, THEN mp, THEN mp, OF lt hyp]
  have "fst (sio_recv demo_env demo_sio 1 (replicate 4 (0, ENONE)) demo_world) = Some (- 1)"
    using c1 by (simp add: sio_recv_def numeral_eq_Suc)
  then show ?thesis using lt segs c2 c3 by (intro conjI)
qed

end
